theory Spec2Isabelle
  imports Main "HOL-Library.AList"
begin

section \<open>Data model of \<open>cupid/run.py\<close>\<close>

text \<open>
  The control structure is the nested dictionary returned by the configuration loader.
  A Python \<open>dict\<close> keeps its keys in insertion order, so a dictionary is an association
  list: \<open>d[k] = v\<close> is \<open>AList.update k v d\<close> (an existing key keeps its position, a new
  key is appended), \<open>d.pop(k)\<close> is \<open>AList.delete k d\<close>, \<open>k in d\<close> and \<open>d[k]\<close> go through
  \<open>map_of d k\<close>, where \<open>None\<close> is the \<open>KeyError\<close>.
\<close>

type_synonym 'v dict = "(string \<times> 'v) list"

datatype pyval = PyBool bool | PyStr string | PyInt int

text \<open>The optional \<open>dependency\<close> entry of a task: one task name or a list of names.\<close>

datatype dep = DepName string | DepNames "string list"

text \<open>
  The metadata of one task. \<open>run.py\<close> reads the keys \<open>kernel_name\<close> (by indexing, so a
  missing key raises) and \<open>dependency\<close> (after a membership test); every other key is
  passed through.
\<close>

record info =
  kernel_name :: "string option"
  dependency :: "dep option"
  parameters :: "pyval dict"

type_synonym category = "info dict"
type_synonym catalog = "category dict"

record data_sources =
  run_dir :: string
  sname :: string
  nb_path_root :: string
  path_to_cat_json :: "string option"
  subset :: "pyval dict option"

record control =
  data_sources :: data_sources
  global_params :: "pyval dict option"
  env_check :: "bool dict option"
  compute_notebooks :: "catalog option"
  compute_scripts :: "catalog option"

text \<open>The command-line options of \<open>run\<close> (lines 18--32).\<close>

record options =
  serial :: bool
  time_series :: bool
  all :: bool
  atmosphere :: bool
  ocean :: bool
  land :: bool
  seaice :: bool
  landice :: bool

text \<open>
  Exceptions. \<open>KeyError\<close> and \<open>NotImplementedError\<close> are raised by \<open>run.py\<close> itself;
  \<open>ConfigError\<close>, \<open>UnresolvedDependencyError\<close> and \<open>CyclicDependencyError\<close> are the
  errors of the loader and of graph assembly.
\<close>

datatype error =
    KeyError string
  | NotImplementedError string
  | ConfigError
  | UnresolvedDependencyError string string
  | CyclicDependencyError

datatype kind = Notebook | Script

text \<open>
  The four \<open>warnings.warn\<close> calls: lines 126 and 172 (component, by kind) and lines 133
  and 179 (environment, task, by kind).
\<close>

datatype warning =
    NoTasksForComponent kind string
  | EnvironmentNotFound kind string string

section \<open>Organizing notebooks and scripts\<close>

text \<open>\<open>for nb, info in category.items(): all_nbs[nb] = info\<close>\<close>

definition merge_items :: "'v dict \<Rightarrow> 'v dict \<Rightarrow> 'v dict" where
  "merge_items acc cat = foldl (\<lambda>d (k, v). AList.update k v d) acc cat"

text \<open>Lines 96--100.\<close>

definition component_options :: "options \<Rightarrow> bool dict" where
  "component_options opts =
     [(''atmosphere'', atmosphere opts),
      (''ocean'', ocean opts),
      (''land'', land opts),
      (''seaice'', seaice opts),
      (''landice'', landice opts)]"

text \<open>
  Lines 111--112 and 157--158: \<open>if True not in [atmosphere, ocean, land, seaice, landice]:
  all = True\<close>. The function returns the new value of the variable \<open>all\<close>.
\<close>

definition default_all :: "options \<Rightarrow> bool \<Rightarrow> bool" where
  "default_all opts all_var =
     (if True \<notin> set [atmosphere opts, ocean opts, land opts, seaice opts, landice opts]
      then True else all_var)"

text \<open>
  Lines 115--117 and 161--163: every category of the section, in the order of the
  configuration.
\<close>

definition merge_all_categories :: "catalog \<Rightarrow> info dict \<Rightarrow> info dict" where
  "merge_all_categories cat acc = foldl merge_items acc (map snd cat)"

text \<open>
  Lines 120--126 and 166--172: the loop over \<open>component_options.items()\<close>. The state is
  the universe built so far and the warnings emitted so far.
\<close>

fun merge_components ::
  "kind \<Rightarrow> catalog \<Rightarrow> bool dict \<Rightarrow> info dict \<times> warning list \<Rightarrow> info dict \<times> warning list" where
  "merge_components k cat [] s = s"
| "merge_components k cat ((comp_name, comp_bool) # rest) (acc, ws) =
     (if comp_bool then
        (case map_of cat comp_name of
           Some c \<Rightarrow> merge_components k cat rest (merge_items acc c, ws)
         | None \<Rightarrow> merge_components k cat rest (acc, ws @ [NoTasksForComponent k comp_name]))
      else merge_components k cat rest (acc, ws))"

text \<open>
  Lines 104--126. The result is the dictionary \<open>all_nbs\<close>, the warnings and the new
  value of \<open>all\<close>; indexing the section with \<open>'infrastructure'\<close> raises when the category
  is missing.
\<close>

definition organize_notebooks ::
  "catalog \<Rightarrow> options \<Rightarrow> bool \<Rightarrow> error + (info dict \<times> warning list \<times> bool)" where
  "organize_notebooks cat opts all_var =
     (case map_of cat ''infrastructure'' of
        None \<Rightarrow> Inl (KeyError ''infrastructure'')
      | Some infra \<Rightarrow>
          (let all_nbs = merge_items [] infra;
               all_var' = default_all opts all_var
           in if all_var' then Inr (merge_all_categories cat all_nbs, [], all_var')
              else (case merge_components Notebook cat (component_options opts) (all_nbs, []) of
                      (u, ws) \<Rightarrow> Inr (u, ws, all_var'))))"

text \<open>Lines 153--172: the same for scripts, without the infrastructure loop.\<close>

definition organize_scripts ::
  "catalog \<Rightarrow> options \<Rightarrow> bool \<Rightarrow> info dict \<times> warning list \<times> bool" where
  "organize_scripts cat opts all_var =
     (let all_scripts = [];
          all_var' = default_all opts all_var
      in if all_var' then (merge_all_categories cat all_scripts, [], all_var')
         else (case merge_components Script cat (component_options opts) (all_scripts, []) of
                 (u, ws) \<Rightarrow> (u, ws, all_var')))"

text \<open>
  Lines 130--134 and 176--180: the loop over the items of a copy of the universe. The
  test \<open>not control["env_check"][info["kernel_name"]]\<close> indexes three times, and each
  index raises \<open>KeyError\<close> on a missing key. The warnings emitted before an exception
  stay emitted, so they are returned with it.
\<close>

fun check_environments ::
  "kind \<Rightarrow> bool dict option \<Rightarrow> info dict \<Rightarrow> info dict \<times> warning list
     \<Rightarrow> warning list \<times> (error + info dict)" where
  "check_environments k ec [] (acc, ws) = (ws, Inr acc)"
| "check_environments k ec ((nb, inf0) # rest) (acc, ws) =
     (case ec of
        None \<Rightarrow> (ws, Inl (KeyError ''env_check''))
      | Some env \<Rightarrow>
          (case kernel_name inf0 of
             None \<Rightarrow> (ws, Inl (KeyError ''kernel_name''))
           | Some kn \<Rightarrow>
               (case map_of env kn of
                  None \<Rightarrow> (ws, Inl (KeyError kn))
                | Some available \<Rightarrow>
                    if \<not> available
                    then check_environments k ec rest
                           (AList.delete nb acc, ws @ [EnvironmentNotFound k kn nb])
                    else check_environments k ec rest (acc, ws))))"

text \<open>
  The task universe of one section: the organizing loops followed by the environment
  check. The result carries the warnings, and either the exception or the universe
  with the new value of \<open>all\<close>.
\<close>

definition notebook_universe ::
  "control \<Rightarrow> catalog \<Rightarrow> options \<Rightarrow> bool \<Rightarrow> warning list \<times> (error + info dict \<times> bool)" where
  "notebook_universe ctl cat opts all_var =
     (case organize_notebooks cat opts all_var of
        Inl e \<Rightarrow> ([], Inl e)
      | Inr (all_nbs, ws, all_var') \<Rightarrow>
          (case check_environments Notebook (env_check ctl) all_nbs (all_nbs, ws) of
             (ws', Inl e) \<Rightarrow> (ws', Inl e)
           | (ws', Inr u) \<Rightarrow> (ws', Inr (u, all_var'))))"

definition script_universe ::
  "control \<Rightarrow> catalog \<Rightarrow> options \<Rightarrow> bool \<Rightarrow> warning list \<times> (error + info dict \<times> bool)" where
  "script_universe ctl cat opts all_var =
     (case organize_scripts cat opts all_var of
        (all_scripts, ws, all_var') \<Rightarrow>
          (case check_environments Script (env_check ctl) all_scripts (all_scripts, ws) of
             (ws', Inl e) \<Rightarrow> (ws', Inl e)
           | (ws', Inr u) \<Rightarrow> (ws', Inr (u, all_var'))))"

section \<open>Paths and the catalog\<close>

text \<open>
  \<open>s.split(c)\<close> for a one-character separator: the pieces between the separators. The
  list is never empty, so the last case of the inner \<open>case\<close> is never taken, and \<open>last\<close>
  and \<open>hd\<close> of the result are Python's \<open>[-1]\<close> and \<open>[0]\<close>.
\<close>

fun split_on :: "char \<Rightarrow> string \<Rightarrow> string list" where
  "split_on c [] = [[]]"
| "split_on c (x # xs) =
     (if x = c then [] # split_on c xs
      else (case split_on c xs of
              w # ws \<Rightarrow> (x # w) # ws
            | [] \<Rightarrow> [[x]]))"

text \<open>Line 71: \<open>full_cat_path.split("/")[-1].split('.')[0] + "_subset"\<close>.\<close>

definition cat_subset_name :: "string \<Rightarrow> string" where
  "cat_subset_name full_cat_path =
     hd (split_on CHR ''.'' (last (split_on CHR ''/'' full_cat_path))) @ ''_subset''"

text \<open>
  What the run does outside of its own variables, in order: the calls of the loader
  and of the catalog library, the warnings and the tasks the executor starts.
\<close>

datatype event =
    GetControlDict string
  | SetupBook string
  | OpenEsmDatastore string
  | CatalogSearch "pyval dict"
  | CatalogSerialize string string string
  | Warn warning
  | RunTasks "string list"

text \<open>
  Lines 58--75. \<open>realpath\<close> stands for \<open>os.path.realpath(os.path.expanduser(_))\<close>, which
  depends on the file system. The result is the calls made to the catalog library
  (\<open>serialize\<close> with its directory, name and catalog type) and \<open>cat_path\<close>. What the
  library does with a call, and whether it fails, is outside the model.
\<close>

definition manage_catalog ::
  "(string \<Rightarrow> string) \<Rightarrow> data_sources \<Rightarrow> string \<Rightarrow> event list \<times> string option" where
  "manage_catalog realpath ds temp_data_path =
     (case path_to_cat_json ds of
        None \<Rightarrow> ([], None)
      | Some p \<Rightarrow>
          (let full_cat_path = realpath p in
           (case subset ds of
              Some first_subset_kwargs \<Rightarrow>
                (let name = cat_subset_name full_cat_path in
                 ([OpenEsmDatastore full_cat_path,
                   CatalogSearch first_subset_kwargs,
                   CatalogSerialize temp_data_path name ''file''],
                  Some (temp_data_path @ ''/'' @ name @ ''.json'')))
            | None \<Rightarrow> ([OpenEsmDatastore full_cat_path], Some full_cat_path))))"

section \<open>Global parameters\<close>

text \<open>
  Lines 81--84 bind the name \<open>global_params\<close> either to a fresh dictionary or to the
  object stored in the control structure under \<open>'global_params'\<close>; line 140 writes
  through that name. The store holds the two objects, and a reference says which one
  the name is bound to.
\<close>

datatype gp_ref = FreshDict | ControlGlobalParams

record store =
  control_obj :: control
  fresh_dict :: "pyval dict"

definition bind_global_params :: "control \<Rightarrow> gp_ref" where
  "bind_global_params ctl =
     (case global_params ctl of None \<Rightarrow> FreshDict | Some g \<Rightarrow> ControlGlobalParams)"

definition gp_read :: "gp_ref \<Rightarrow> store \<Rightarrow> pyval dict" where
  "gp_read r st =
     (case r of
        FreshDict \<Rightarrow> fresh_dict st
      | ControlGlobalParams \<Rightarrow>
          (case global_params (control_obj st) of Some g \<Rightarrow> g | None \<Rightarrow> []))"

definition gp_write :: "gp_ref \<Rightarrow> string \<Rightarrow> pyval \<Rightarrow> store \<Rightarrow> store" where
  "gp_write r k v st =
     (case r of
        FreshDict \<Rightarrow> st\<lparr>fresh_dict := AList.update k v (fresh_dict st)\<rparr>
      | ControlGlobalParams \<Rightarrow>
          st\<lparr>control_obj := (control_obj st)\<lparr>global_params :=
                Some (AList.update k v (gp_read ControlGlobalParams st))\<rparr>\<rparr>)"

section \<open>The task graph\<close>

datatype executor = Serial | Parallel

text \<open>
  A node of the graph: the arguments \<open>run.py\<close> passes for the task (lines 143, 146, 187
  and 190), the content of the global parameters at that moment and the names the
  task depends on.
\<close>

record task =
  task_kind :: kind
  task_info :: info
  task_cat_path :: "string option"
  task_nb_path_root :: string
  task_output_dir :: "string option"
  task_gp_ref :: gp_ref
  task_global_params :: "pyval dict"
  task_deps :: "string list"

record dag =
  executor :: executor
  tasks :: "task dict"

text \<open>Line 90: \<open>ploomber.DAG(executor=ploomber.executors.Serial())\<close>.\<close>

definition new_dag :: dag where
  "new_dag = \<lparr>executor = Serial, tasks = []\<rparr>"

definition dep_names :: "dep option \<Rightarrow> string list" where
  "dep_names d = (case d of None \<Rightarrow> [] | Some (DepName n) \<Rightarrow> [n] | Some (DepNames ns) \<Rightarrow> ns)"

text \<open>
  Modelled from the spec: \<open>cupid.util.create_ploomber_nb_task\<close> and
  \<open>cupid.util.create_ploomber_script_task\<close> are called by \<open>run.py\<close> and defined
  elsewhere. Section 4.3:
  for every task a node is attached that carries its execution parameters (catalog
  path or none, notebook-root path, output path for notebook tasks, global
  parameters, task-local parameters and kernel name in the task's metadata), with one
  edge from each named predecessor; task names are the keys of the graph.
\<close>

definition create_ploomber_task ::
  "kind \<Rightarrow> string \<Rightarrow> info \<Rightarrow> string option \<Rightarrow> string \<Rightarrow> string option \<Rightarrow> gp_ref \<Rightarrow> store
     \<Rightarrow> dag \<Rightarrow> dep option \<Rightarrow> dag" where
  "create_ploomber_task k name i cat_path nb_root output_dir gp st g d =
     g\<lparr>tasks := AList.update name
         \<lparr>task_kind = k, task_info = i, task_cat_path = cat_path, task_nb_path_root = nb_root,
          task_output_dir = output_dir, task_gp_ref = gp, task_global_params = gp_read gp st,
          task_deps = dep_names d\<rparr> (tasks g)\<rparr>"

text \<open>Lines 138--146.\<close>

fun setup_notebook_tasks ::
  "bool \<Rightarrow> string option \<Rightarrow> string \<Rightarrow> string \<Rightarrow> gp_ref \<Rightarrow> info dict \<Rightarrow> store \<times> dag
     \<Rightarrow> store \<times> dag" where
  "setup_notebook_tasks ser cat_path nb_root output_dir gp [] s = s"
| "setup_notebook_tasks ser cat_path nb_root output_dir gp ((nb, i) # rest) (st, g) =
     (let st' = gp_write gp ''serial'' (PyBool ser) st;
          g' = (case dependency i of
                  Some d \<Rightarrow>
                    create_ploomber_task Notebook nb i cat_path nb_root (Some output_dir) gp st' g
                      (Some d)
                | None \<Rightarrow>
                    create_ploomber_task Notebook nb i cat_path nb_root (Some output_dir) gp st' g
                      None)
      in setup_notebook_tasks ser cat_path nb_root output_dir gp rest (st', g'))"

text \<open>Lines 184--190.\<close>

fun setup_script_tasks ::
  "string option \<Rightarrow> string \<Rightarrow> gp_ref \<Rightarrow> info dict \<Rightarrow> store \<times> dag \<Rightarrow> store \<times> dag" where
  "setup_script_tasks cat_path nb_root gp [] s = s"
| "setup_script_tasks cat_path nb_root gp ((script, i) # rest) (st, g) =
     (let g' = (case dependency i of
                  Some d \<Rightarrow> create_ploomber_task Script script i cat_path nb_root None gp st g (Some d)
                | None \<Rightarrow> create_ploomber_task Script script i cat_path nb_root None gp st g None)
      in setup_script_tasks cat_path nb_root gp rest (st, g'))"

section \<open>Assembly and execution of the graph\<close>

text \<open>
  Modelled from the spec: \<open>dag.build()\<close> is called by \<open>run.py\<close> and belongs to the
  workflow library. Sections 4.3 and 4.4: a dependency name that is not among the
  supplied tasks is an \<open>UnresolvedDependencyError\<close>; if the assembled edges form a
  cycle, assembly fails with \<open>CyclicDependencyError\<close> before execution begins; the
  serial executor runs one task at a time in a topological order, the parallel one
  dispatches every ready task together; a task is ready when all its predecessors
  have completed. The outcome of a single task is outside the model.
\<close>

definition unresolved :: "task dict \<Rightarrow> (string \<times> string) list" where
  "unresolved ts =
     concat (map (\<lambda>(n, t). map (\<lambda>d. (n, d)) (filter (\<lambda>d. d \<notin> set (map fst ts)) (task_deps t))) ts)"

definition ready :: "string list \<Rightarrow> string \<times> task \<Rightarrow> bool" where
  "ready finished p = (\<forall>d \<in> set (task_deps (snd p)). d \<in> set finished)"

function schedule :: "task dict \<Rightarrow> string list \<Rightarrow> string list option" where
  "schedule pending finished =
     (case List.find (ready finished) pending of
        None \<Rightarrow> if pending = [] then Some finished else None
      | Some p \<Rightarrow> schedule (remove1 p pending) (finished @ [fst p]))"
  by pat_completeness auto
termination
proof (relation "measure (\<lambda>(pending, finished). length pending)")
  show "wf (measure (\<lambda>(pending, finished). length pending))" by simp
next
  fix pending :: "task dict" and finished :: "string list" and p
  assume "List.find (ready finished) pending = Some p"
  then have "p \<in> set pending"
    by (auto simp: find_Some_iff)
  then have "length (remove1 p pending) < length pending"
    by (simp add: length_remove1) (cases pending; simp)
  then show "((remove1 p pending, finished @ [fst p]), (pending, finished))
               \<in> measure (\<lambda>(pending, finished). length pending)"
    by simp
qed

function waves :: "task dict \<Rightarrow> string list \<Rightarrow> string list list" where
  "waves pending finished =
     (case filter (ready finished) pending of
        [] \<Rightarrow> []
      | p # ps \<Rightarrow>
          map fst (p # ps)
            # waves (filter (\<lambda>q. \<not> ready finished q) pending) (finished @ map fst (p # ps)))"
  by pat_completeness auto
termination
proof (relation "measure (\<lambda>(pending, finished). length pending)")
  show "wf (measure (\<lambda>(pending, finished). length pending))" by simp
next
  fix pending :: "task dict" and finished :: "string list" and p ps
  assume "filter (ready finished) pending = p # ps"
  then have "p \<in> set (filter (ready finished) pending)"
    by simp
  then have "p \<in> set pending" "ready finished p"
    by simp_all
  then have "length (filter (\<lambda>q. \<not> ready finished q) pending) < length pending"
    by (intro length_filter_less[of p]) auto
  then show "((filter (\<lambda>q. \<not> ready finished q) pending, finished @ map fst (p # ps)),
               (pending, finished)) \<in> measure (\<lambda>(pending, finished). length pending)"
    by simp
qed

text \<open>The two equations are unfolded by hand: each is recursive without a guard.\<close>

declare schedule.simps [simp del]
declare waves.simps [simp del]

text \<open>
  Modelled from the spec: assembly (section 4.3) checks the dependency names first,
  then the cycles; the graph it returns is the dictionary of the tasks.
\<close>

definition assemble :: "task dict \<Rightarrow> error + task dict" where
  "assemble ts =
     (case unresolved ts of
        (n, d) # rest \<Rightarrow> Inl (UnresolvedDependencyError n d)
      | [] \<Rightarrow>
          (case schedule ts [] of
             None \<Rightarrow> Inl CyclicDependencyError
           | Some order \<Rightarrow> Inr ts))"

text \<open>
  Modelled from the spec: execution (section 4.4) of an assembled graph, as the list of
  the groups of tasks started together.
\<close>

definition execute :: "executor \<Rightarrow> task dict \<Rightarrow> string list list" where
  "execute mode graph =
     (case mode of
        Serial \<Rightarrow> (case schedule graph [] of Some order \<Rightarrow> map (\<lambda>n. [n]) order | None \<Rightarrow> [])
      | Parallel \<Rightarrow> waves graph [])"

text \<open>Modelled from the spec: \<open>dag.build()\<close> assembles, then executes with the graph's executor.\<close>

definition build :: "dag \<Rightarrow> error + string list list" where
  "build g =
     (case assemble (tasks g) of
        Inl e \<Rightarrow> Inl e
      | Inr graph \<Rightarrow> Inr (execute (executor g) graph))"

section \<open>The run\<close>

text \<open>
  What is left when \<open>run\<close> ends: the exception that left it (or none),
  \<open>sys.tracebacklimit\<close> when the run has set it, the events in order, and the store and
  the graph as they are at that moment.
\<close>

record outcome =
  raised :: "error option"
  tracebacklimit :: "nat option"
  events :: "event list"
  final_store :: "store option"
  final_dag :: "dag option"

text \<open>Lines 102--146.\<close>

definition notebooks_section ::
  "options \<Rightarrow> string option \<Rightarrow> string \<Rightarrow> string \<Rightarrow> gp_ref \<Rightarrow> bool \<times> store \<times> dag
     \<Rightarrow> warning list \<times> (error + bool \<times> store \<times> dag)" where
  "notebooks_section opts cat_path nb_root output_dir gp s =
     (case s of (all_var, st, g) \<Rightarrow>
        (case compute_notebooks (control_obj st) of
           None \<Rightarrow> ([], Inr (all_var, st, g))
         | Some cat \<Rightarrow>
             (case notebook_universe (control_obj st) cat opts all_var of
                (ws, Inl e) \<Rightarrow> (ws, Inl e)
              | (ws, Inr (all_nbs, all_var')) \<Rightarrow>
                  (case setup_notebook_tasks (serial opts) cat_path nb_root output_dir gp all_nbs
                          (st, g) of
                     (st', g') \<Rightarrow> (ws, Inr (all_var', st', g'))))))"

text \<open>Lines 151--190.\<close>

definition scripts_section ::
  "options \<Rightarrow> string option \<Rightarrow> string \<Rightarrow> gp_ref \<Rightarrow> bool \<times> store \<times> dag
     \<Rightarrow> warning list \<times> (error + bool \<times> store \<times> dag)" where
  "scripts_section opts cat_path nb_root gp s =
     (case s of (all_var, st, g) \<Rightarrow>
        (case compute_scripts (control_obj st) of
           None \<Rightarrow> ([], Inr (all_var, st, g))
         | Some cat \<Rightarrow>
             (case script_universe (control_obj st) cat opts all_var of
                (ws, Inl e) \<Rightarrow> (ws, Inl e)
              | (ws, Inr (all_scripts, all_var')) \<Rightarrow>
                  (case setup_script_tasks cat_path nb_root gp all_scripts (st, g) of
                     (st', g') \<Rightarrow> (ws, Inr (all_var', st', g'))))))"

text \<open>Lines 44--196, once the control structure is there.\<close>

definition run_control :: "(string \<Rightarrow> string) \<Rightarrow> string \<Rightarrow> options \<Rightarrow> control \<Rightarrow> outcome" where
  "run_control realpath config_path opts ctl =
     (let ds = data_sources ctl;
          rdir = realpath (run_dir ds);
          output_dir = rdir @ ''/computed_notebooks/'' @ sname ds;
          temp_data_path = rdir @ ''/temp_data'';
          nb_root = realpath (nb_path_root ds);
          (cat_events, cat_path) = manage_catalog realpath ds temp_data_path;
          gp = bind_global_params ctl;
          st0 = \<lparr>control_obj = ctl, fresh_dict = []\<rparr>;
          ev0 = [GetControlDict config_path, SetupBook config_path] @ cat_events
      in (case notebooks_section opts cat_path nb_root output_dir gp (all opts, st0, new_dag) of
            (ws1, Inl e) \<Rightarrow>
              \<lparr>raised = Some e, tracebacklimit = None, events = ev0 @ map Warn ws1,
               final_store = Some st0, final_dag = Some new_dag\<rparr>
          | (ws1, Inr s1) \<Rightarrow>
              (case scripts_section opts cat_path nb_root gp s1 of
                 (ws2, Inl e) \<Rightarrow>
                   \<lparr>raised = Some e, tracebacklimit = None,
                    events = ev0 @ map Warn ws1 @ map Warn ws2,
                    final_store = Some (fst (snd s1)), final_dag = Some (snd (snd s1))\<rparr>
               | (ws2, Inr (all_var2, st2, g2)) \<Rightarrow>
                   (case build g2 of
                      Inl e \<Rightarrow>
                        \<lparr>raised = Some e, tracebacklimit = None,
                         events = ev0 @ map Warn ws1 @ map Warn ws2,
                         final_store = Some st2, final_dag = Some g2\<rparr>
                    | Inr started \<Rightarrow>
                        \<lparr>raised = None, tracebacklimit = None,
                         events = ev0 @ map Warn ws1 @ map Warn ws2 @ map RunTasks started,
                         final_store = Some st2, final_dag = Some g2\<rparr>))))"

text \<open>
  Lines 31--196. \<open>get_control_dict\<close> stands for \<open>cupid.util.get_control_dict\<close>, which is
  defined elsewhere: it returns the control structure or fails.
\<close>

definition run ::
  "(string \<Rightarrow> error + control) \<Rightarrow> (string \<Rightarrow> string) \<Rightarrow> string \<Rightarrow> options \<Rightarrow> outcome" where
  "run get_control_dict realpath config_path opts =
     (if time_series opts then
        \<lparr>raised = Some (NotImplementedError ''--time-series option not implemented yet''),
         tracebacklimit = Some 0, events = [], final_store = None, final_dag = None\<rparr>
      else
        (case get_control_dict config_path of
           Inl e \<Rightarrow>
             \<lparr>raised = Some e, tracebacklimit = None, events = [GetControlDict config_path],
              final_store = None, final_dag = None\<rparr>
         | Inr ctl \<Rightarrow> run_control realpath config_path opts ctl))"

section \<open>Notions used to state the properties\<close>

subsection \<open>Merge order and last-write-wins\<close>

text \<open>
  The entry a name has after a sequence of dictionaries has been merged one after the
  other: its entry in the last dictionary that has the name.
\<close>

definition last_write_wins :: "'v dict list \<Rightarrow> string \<Rightarrow> 'v option" where
  "last_write_wins cs = map_of (rev (concat cs))"

text \<open>The categories the loop over \<open>component_options\<close> merges, in its order.\<close>

definition selected_categories :: "catalog \<Rightarrow> bool dict \<Rightarrow> category list" where
  "selected_categories cat comps =
     concat (map (\<lambda>(comp_name, comp_bool).
        if comp_bool then (case map_of cat comp_name of Some c \<Rightarrow> [c] | None \<Rightarrow> []) else []) comps)"

definition missing_components :: "kind \<Rightarrow> catalog \<Rightarrow> bool dict \<Rightarrow> warning list" where
  "missing_components k cat comps =
     concat (map (\<lambda>(comp_name, comp_bool).
        if comp_bool \<and> map_of cat comp_name = None then [NoTasksForComponent k comp_name] else [])
        comps)"

definition script_merge_order :: "catalog \<Rightarrow> options \<Rightarrow> bool \<Rightarrow> category list" where
  "script_merge_order cat opts all_var =
     (if default_all opts all_var then map snd cat
      else selected_categories cat (component_options opts))"

definition notebook_merge_order :: "catalog \<Rightarrow> options \<Rightarrow> bool \<Rightarrow> category list" where
  "notebook_merge_order cat opts all_var =
     (case map_of cat ''infrastructure'' of None \<Rightarrow> [] | Some infra \<Rightarrow> [infra])
       @ script_merge_order cat opts all_var"

text \<open>
  The order of the specification: infrastructure first, then the remaining categories
  in configuration order.
\<close>

definition spec_merge_order :: "catalog \<Rightarrow> category list" where
  "spec_merge_order cat =
     (case map_of cat ''infrastructure'' of None \<Rightarrow> [] | Some infra \<Rightarrow> [infra])
       @ map snd (filter (\<lambda>(name, c). name \<noteq> ''infrastructure'') cat)"

subsection \<open>The basename of the catalog\<close>

text \<open>
  The name of the specification for the serialized subset is
  \<open><original_catalog_basename>_subset.json\<close>: the basename is the file name of the
  catalog, the last component of its path, without its extension, the part from the
  last dot on.
\<close>

definition catalog_basename :: "string \<Rightarrow> string" where
  "catalog_basename path =
     (let name = last (split_on CHR ''/'' path)
      in if CHR ''.'' \<in> set name
         then rev (tl (dropWhile (\<lambda>x. x \<noteq> CHR ''.'') (rev name)))
         else name)"

subsection \<open>Availability of a task's environment\<close>

definition known :: "bool dict \<Rightarrow> info \<Rightarrow> bool" where
  "known env i = (case kernel_name i of None \<Rightarrow> False | Some kn \<Rightarrow> map_of env kn \<noteq> None)"

definition available :: "bool dict \<Rightarrow> info \<Rightarrow> bool" where
  "available env i = (case kernel_name i of None \<Rightarrow> False | Some kn \<Rightarrow> map_of env kn = Some True)"

definition environment_warnings :: "kind \<Rightarrow> bool dict \<Rightarrow> info dict \<Rightarrow> warning list" where
  "environment_warnings k env u =
     concat (map (\<lambda>(n, i).
        case kernel_name i of
          None \<Rightarrow> []
        | Some kn \<Rightarrow> if map_of env kn = Some False then [EnvironmentNotFound k kn n] else []) u)"

subsection \<open>Orders and cycles of the graph\<close>

definition first_index :: "'a \<Rightarrow> 'a list \<Rightarrow> nat" where
  "first_index x xs = length (takeWhile (\<lambda>y. y \<noteq> x) xs)"

text \<open>
  An order of the task names in which every task comes after each task it depends on.
\<close>

definition topological :: "task dict \<Rightarrow> string list \<Rightarrow> bool" where
  "topological ts order =
     (distinct order \<and> set order = set (map fst ts) \<and>
      (\<forall>(n, t) \<in> set ts. \<forall>d \<in> set (task_deps t). first_index d order < first_index n order))"

text \<open>An edge goes from the task depended on to the task that names it.\<close>

definition edges :: "task dict \<Rightarrow> (string \<times> string) set" where
  "edges ts = {(d, n). \<exists>t. (n, t) \<in> set ts \<and> d \<in> set (task_deps t)}"

definition cyclic :: "task dict \<Rightarrow> bool" where
  "cyclic ts = (\<exists>x. (x, x) \<in> (edges ts)\<^sup>+)"

text \<open>The tasks the executor has started, wave by wave, read off the events.\<close>

definition started_tasks :: "event list \<Rightarrow> string list list" where
  "started_tasks evs = concat (map (\<lambda>e. case e of RunTasks ns \<Rightarrow> [ns] | _ \<Rightarrow> []) evs)"

text \<open>
  What holds of the graph at every moment of a run: the executor line 90 gave it, keys
  that are distinct, and for every task the catalog path and the global-parameter
  object of the run, with the key \<open>serial\<close> set for notebook tasks.
\<close>

definition well_built :: "string option \<Rightarrow> gp_ref \<Rightarrow> bool \<Rightarrow> dag \<Rightarrow> bool" where
  "well_built cat_path gp ser g =
     (executor g = Serial \<and> distinct (map fst (tasks g)) \<and>
      (\<forall>(n, t) \<in> set (tasks g).
         task_cat_path t = cat_path \<and> task_gp_ref t = gp \<and>
         (task_kind t = Notebook \<longrightarrow>
            map_of (task_global_params t) ''serial'' = Some (PyBool ser))))"

section \<open>Example configurations\<close>

definition example_info :: "string \<Rightarrow> dep option \<Rightarrow> info" where
  "example_info kn d = \<lparr>kernel_name = Some kn, dependency = d, parameters = []\<rparr>"

definition example_sources :: data_sources where
  "example_sources =
     \<lparr>run_dir = ''/work/run'', sname = ''case1'', nb_path_root = ''/work/nb'',
      path_to_cat_json = Some ''/data/cesm.json'',
      subset = Some [(''case'', PyStr ''b1850'')]\<rparr>"

text \<open>
  The catalog of the scenario of the specification: \<open>setup\<close> under \<open>infrastructure\<close>,
  \<open>plot_atm\<close> under \<open>atmosphere\<close>, depending on \<open>setup\<close>.
\<close>

definition example_catalog :: catalog where
  "example_catalog =
     [(''infrastructure'', [(''setup'', example_info ''base'' None)]),
      (''atmosphere'', [(''plot_atm'', example_info ''base'' (Some (DepName ''setup'')))])]"

definition example_control :: control where
  "example_control =
     \<lparr>data_sources = example_sources, global_params = Some [],
      env_check = Some [(''base'', True)],
      compute_notebooks = Some example_catalog, compute_scripts = None\<rparr>"

definition no_flags :: options where
  "no_flags =
     \<lparr>serial = False, time_series = False, all = False, atmosphere = False, ocean = False,
      land = False, seaice = False, landice = False\<rparr>"

definition every_component :: options where
  "every_component =
     \<lparr>serial = False, time_series = False, all = False, atmosphere = True, ocean = True,
      land = True, seaice = True, landice = True\<rparr>"

definition example_task :: "string list \<Rightarrow> task" where
  "example_task deps =
     \<lparr>task_kind = Notebook, task_info = example_info ''base'' (Some (DepNames deps)),
      task_cat_path = None, task_nb_path_root = ''/work/nb'',
      task_output_dir = Some ''/work/run/computed_notebooks/case1'',
      task_gp_ref = FreshDict, task_global_params = [(''serial'', PyBool False)],
      task_deps = deps\<rparr>"

text \<open>The scenario of the specification: \<open>plot_atm\<close> depends on \<open>missing_task\<close>.\<close>

definition unresolved_tasks :: "task dict" where
  "unresolved_tasks =
     [(''setup'', example_task []), (''plot_atm'', example_task [''missing_task''])]"

text \<open>Task \<open>a\<close> depends on \<open>b\<close>, and \<open>b\<close> on \<open>a\<close>.\<close>

definition cyclic_tasks :: "task dict" where
  "cyclic_tasks = [(''a'', example_task [''b'']), (''b'', example_task [''a''])]"

text \<open>The same cycle, and a third task with a dependency that is not there.\<close>

definition cyclic_unresolved_tasks :: "task dict" where
  "cyclic_unresolved_tasks = cyclic_tasks @ [(''c'', example_task [''missing_task''])]"

text \<open>A configuration whose notebooks give the graph \<open>cyclic_tasks\<close>.\<close>

definition example_control_of :: "category \<Rightarrow> control" where
  "example_control_of atm =
     \<lparr>data_sources = example_sources\<lparr>path_to_cat_json := None, subset := None\<rparr>,
      global_params = None, env_check = Some [(''base'', True)],
      compute_notebooks = Some [(''infrastructure'', []), (''atmosphere'', atm)],
      compute_scripts = None\<rparr>"

definition example_category :: "(string \<times> string list) list \<Rightarrow> category" where
  "example_category l = map (\<lambda>(n, deps). (n, example_info ''base'' (Some (DepNames deps)))) l"

text \<open>Two categories with a task of the same name, \<open>infrastructure\<close> listed last.\<close>

definition infrastructure_last_catalog :: catalog where
  "infrastructure_last_catalog =
     [(''atmosphere'', [(''plot'', example_info ''atm_env'' None)]),
      (''infrastructure'', [(''plot'', example_info ''base'' None)])]"

text \<open>Two components with a task of the same name, \<open>ocean\<close> listed before \<open>atmosphere\<close>.\<close>

definition ocean_first_catalog :: catalog where
  "ocean_first_catalog =
     [(''infrastructure'', []),
      (''ocean'', [(''plot'', example_info ''ocn_env'' None)]),
      (''atmosphere'', [(''plot'', example_info ''atm_env'' None)])]"

text \<open>The example catalog with one more category, which is not one of the five components.\<close>

definition river_catalog :: catalog where
  "river_catalog = example_catalog @ [(''river'', [(''plot_rof'', example_info ''base'' None)])]"

text \<open>
  A configuration with two environments, one of them not installed, and the same
  catalog for notebooks and scripts.
\<close>

definition two_environments_catalog :: catalog where
  "two_environments_catalog =
     [(''infrastructure'', [(''setup'', example_info ''base'' None)]),
      (''atmosphere'', [(''plot_atm'', example_info ''atm_env'' (Some (DepName ''setup'')))])]"

definition two_environments_control :: control where
  "two_environments_control =
     example_control\<lparr>env_check := Some [(''base'', True), (''atm_env'', False)],
       compute_notebooks := Some two_environments_catalog,
       compute_scripts := Some two_environments_catalog\<rparr>"

text \<open>The same, with \<open>atm_env\<close> missing from the environment mapping.\<close>

definition unknown_environment_control :: control where
  "unknown_environment_control = two_environments_control\<lparr>env_check := Some [(''base'', True)]\<rparr>"

text \<open>Two tasks without dependencies.\<close>

definition independent_tasks :: "task dict" where
  "independent_tasks = [(''a'', example_task []), (''b'', example_task [])]"

text \<open>The example configuration with a catalog whose file name has two dots.\<close>

definition two_dot_control :: control where
  "two_dot_control =
     example_control\<lparr>data_sources :=
       example_sources\<lparr>path_to_cat_json := Some ''/data/cesm.v2.json''\<rparr>\<rparr>"

section \<open>Scheduling\<close>

lemma first_index_append_in: "x \<in> set xs \<Longrightarrow> first_index x (xs @ ys) = first_index x xs"
  by (simp add: first_index_def takeWhile_append1)

lemma first_index_append_notin:
  "x \<notin> set xs \<Longrightarrow> first_index x (xs @ x # ys) = length xs"
  by (induction xs) (auto simp: first_index_def)

lemma in_remove1D: "y \<in> set (remove1 x xs) \<Longrightarrow> y \<in> set xs"
  by (meson notin_set_remove1)

lemma distinct_map_remove1: "distinct (map f xs) \<Longrightarrow> distinct (map f (remove1 x xs))"
  by (induction xs) (auto dest!: in_remove1D)

lemma key_notin_remove1:
  "distinct (map f xs) \<Longrightarrow> p \<in> set xs \<Longrightarrow> f p \<notin> f ` set (remove1 p xs)"
proof (induction xs)
  case Nil
  then show ?case by simp
next
  case (Cons a xs)
  show ?case
  proof (cases "p = a")
    case True
    then show ?thesis using Cons.prems(1) by simp
  next
    case False
    then have "p \<in> set xs" using Cons.prems(2) by simp
    moreover have "distinct (map f xs)" "f a \<notin> f ` set xs" using Cons.prems(1) by simp_all
    ultimately have "f p \<notin> f ` set (remove1 p xs)" "f p \<noteq> f a"
      using Cons.IH by (blast, metis imageI)
    then show ?thesis using False by simp
  qed
qed

lemma first_index_less: "x \<in> set xs \<Longrightarrow> first_index x xs < length xs"
  by (induction xs) (auto simp: first_index_def)

lemma schedule_Some:
  assumes "schedule pending finished = Some order"
    and "distinct (map fst pending)"
    and "distinct finished"
    and "fst ` set pending \<inter> set finished = {}"
  shows "\<exists>rest. order = finished @ rest \<and> distinct order \<and> set rest = fst ` set pending \<and>
           (\<forall>(n, t) \<in> set pending. \<forall>d \<in> set (task_deps t).
              first_index d order < first_index n order)"
  using assms
proof (induction pending finished rule: schedule.induct)
  case (1 pending finished)
  show ?case
  proof (cases "List.find (ready finished) pending")
    case None
    with "1.prems"(1) have "pending = []" "order = finished"
      by (simp_all add: schedule.simps[of pending finished] split: if_splits)
    with "1.prems" show ?thesis by simp
  next
    case (Some p)
    then have p_in: "p \<in> set pending" and p_ready: "ready finished p"
      by (auto simp: find_Some_iff)
    let ?pending' = "remove1 p pending"
    let ?finished' = "finished @ [fst p]"
    have sched: "schedule ?pending' ?finished' = Some order"
      using "1.prems"(1) Some by (simp add: schedule.simps[of pending finished])
    have d1: "distinct (map fst ?pending')"
      using "1.prems"(2) by (rule distinct_map_remove1)
    have p_notin: "fst p \<notin> set finished"
      using "1.prems"(4) p_in by auto
    have d2: "distinct ?finished'"
      using "1.prems"(3) p_notin by simp
    have p_uniq: "fst p \<notin> fst ` set ?pending'"
      using "1.prems"(2) p_in by (rule key_notin_remove1)
    have d3: "fst ` set ?pending' \<inter> set ?finished' = {}"
    proof -
      have "fst ` set ?pending' \<subseteq> fst ` set pending"
        by (rule image_mono) (rule set_remove1_subset)
      then have "fst ` set ?pending' \<inter> set finished = {}"
        using "1.prems"(4) by blast
      then show ?thesis using p_uniq by simp
    qed
    from "1.IH"[OF Some sched d1 d2 d3]
    obtain rest where rest: "order = ?finished' @ rest" "distinct order"
      "set rest = fst ` set ?pending'"
      "\<forall>(n, t) \<in> set ?pending'. \<forall>d \<in> set (task_deps t).
          first_index d order < first_index n order"
      by blast
    have order_eq: "order = finished @ fst p # rest" using rest(1) by simp
    have "distinct pending" using "1.prems"(2) by (simp add: distinct_map)
    then have set_pending: "set pending = insert p (set ?pending')"
      using p_in by auto
    have p_deps: "\<forall>d \<in> set (task_deps (snd p)). first_index d order < first_index (fst p) order"
    proof
      fix d assume "d \<in> set (task_deps (snd p))"
      then have "d \<in> set finished" using p_ready by (simp add: ready_def)
      then have "first_index d order < length finished"
        unfolding order_eq by (simp add: first_index_append_in first_index_less)
      moreover have "first_index (fst p) order = length finished"
        unfolding order_eq using p_notin by (rule first_index_append_notin)
      ultimately show "first_index d order < first_index (fst p) order" by simp
    qed
    have a: "set (fst p # rest) = fst ` set pending"
      using rest(3) set_pending by simp
    have b: "\<forall>(n, t) \<in> set pending. \<forall>d \<in> set (task_deps t).
          first_index d order < first_index n order"
    proof (clarify)
      fix n t d assume nt: "(n, t) \<in> set pending" and d: "d \<in> set (task_deps t)"
      show "first_index d order < first_index n order"
      proof (cases "(n, t) = p")
        case True
        then show ?thesis using p_deps d by auto
      next
        case False
        then have "(n, t) \<in> set ?pending'" using nt set_pending by blast
        then show ?thesis using rest(4) d by blast
      qed
    qed
    show ?thesis
    proof (intro exI conjI)
      show "order = finished @ (fst p # rest)" by (fact order_eq)
      show "distinct order" by (fact rest(2))
      show "set (fst p # rest) = fst ` set pending" by (fact a)
      show "\<forall>(n, t) \<in> set pending. \<forall>d \<in> set (task_deps t).
          first_index d order < first_index n order" by (fact b)
    qed
  qed
qed

lemma schedule_topological:
  assumes "schedule ts [] = Some order" and "distinct (map fst ts)"
  shows "topological ts order"
  using schedule_Some[OF assms(1) assms(2)] by (auto simp: topological_def)

lemma topological_trancl:
  assumes "topological ts order" and "(x, y) \<in> (edges ts)\<^sup>+"
  shows "first_index x order < first_index y order"
  using assms(2)
proof (induction rule: trancl.induct)
  case (r_into_trancl a b)
  then show ?case using assms(1) by (auto simp: topological_def edges_def)
next
  case (trancl_into_trancl a b c)
  moreover have "first_index b order < first_index c order"
    using trancl_into_trancl(2) assms(1) by (auto simp: topological_def edges_def)
  ultimately show ?case by simp
qed

lemma topological_acyclic: "topological ts order \<Longrightarrow> \<not> cyclic ts"
  using topological_trancl by (fastforce simp: cyclic_def)

lemma cyclic_schedule_None:
  "distinct (map fst ts) \<Longrightarrow> cyclic ts \<Longrightarrow> schedule ts [] = None"
proof (cases "schedule ts []")
  case None
  then show ?thesis by simp
next
  case (Some order)
  assume "distinct (map fst ts)" "cyclic ts"
  then show ?thesis using schedule_topological[OF Some] topological_acyclic by blast
qed

section \<open>Assembly\<close>

lemma set_unresolved:
  "set (unresolved ts) =
     {(n, d). \<exists>t. (n, t) \<in> set ts \<and> d \<in> set (task_deps t) \<and> d \<notin> fst ` set ts}"
  by (auto simp: unresolved_def)

lemma unresolved_assemble:
  assumes "(n, t) \<in> set ts" and "d \<in> set (task_deps t)" and "d \<notin> fst ` set ts"
  shows "\<exists>n' d'. d' \<notin> fst ` set ts \<and> assemble ts = Inl (UnresolvedDependencyError n' d')"
proof -
  have "(n, d) \<in> set (unresolved ts)"
    using assms by (auto simp: set_unresolved)
  then obtain n' d' rest where u: "unresolved ts = (n', d') # rest"
    by (cases "unresolved ts") auto
  then have "(n', d') \<in> set (unresolved ts)" by simp
  then have "d' \<notin> fst ` set ts" by (auto simp: set_unresolved)
  moreover have "assemble ts = Inl (UnresolvedDependencyError n' d')"
    using u by (simp add: assemble_def)
  ultimately show ?thesis by blast
qed

lemma cyclic_assemble:
  assumes "distinct (map fst ts)" and "unresolved ts = []" and "cyclic ts"
  shows "assemble ts = Inl CyclicDependencyError"
  using assms(2) cyclic_schedule_None[OF assms(1) assms(3)] by (simp add: assemble_def)

lemma build_assemble_Inl: "assemble ts = Inl e \<Longrightarrow> build \<lparr>executor = m, tasks = ts\<rparr> = Inl e"
  by (simp add: build_def)

section \<open>Events of a run\<close>

lemma started_tasks_append: "started_tasks (xs @ ys) = started_tasks xs @ started_tasks ys"
  by (simp add: started_tasks_def)

lemma started_tasks_Warn: "started_tasks (map Warn ws) = []"
  by (induction ws) (simp_all add: started_tasks_def)

lemma started_tasks_RunTasks: "started_tasks (map RunTasks l) = l"
  by (induction l) (simp_all add: started_tasks_def)

lemma started_tasks_manage_catalog: "started_tasks (fst (manage_catalog R ds t)) = []"
  by (simp add: manage_catalog_def started_tasks_def Let_def split: option.splits)

lemma manage_catalog_no_tasks: "manage_catalog R ds t = (evs, cp) \<Longrightarrow> started_tasks evs = []"
  using started_tasks_manage_catalog[of R ds t] by simp

lemma started_tasks_Cons:
  "started_tasks (GetControlDict c # evs) = started_tasks evs"
  "started_tasks (SetupBook c # evs) = started_tasks evs"
  by (simp_all add: started_tasks_def)

lemmas started_tasks_simps =
  started_tasks_append started_tasks_Warn started_tasks_RunTasks started_tasks_manage_catalog
  started_tasks_Cons

lemma run_control_raised:
  assumes "raised (run_control R c opts ctl) \<noteq> None"
  shows "started_tasks (events (run_control R c opts ctl)) = []"
  using assms
  by (auto simp: run_control_def Let_def started_tasks_simps split: prod.splits sum.splits
      dest: manage_catalog_no_tasks)

lemma run_control_returned:
  assumes "raised (run_control R c opts ctl) = None"
    and "final_dag (run_control R c opts ctl) = Some g"
  shows "\<exists>started. build g = Inr started \<and>
           started_tasks (events (run_control R c opts ctl)) = started"
  using assms
  by (auto simp: run_control_def Let_def started_tasks_simps split: prod.splits sum.splits
      dest: manage_catalog_no_tasks)

lemma run_raised:
  assumes "raised (run G R c opts) \<noteq> None"
  shows "started_tasks (events (run G R c opts)) = []"
  using assms run_control_raised
  by (auto simp: run_def started_tasks_def split: sum.splits if_splits)

lemma run_returned:
  assumes "raised (run G R c opts) = None" and "final_dag (run G R c opts) = Some g"
  shows "\<exists>started. build g = Inr started \<and> started_tasks (events (run G R c opts)) = started"
  using assms run_control_returned
  by (auto simp: run_def split: sum.splits if_splits)

lemma run_build_fails:
  assumes "build g = Inl e" and "final_dag (run G R c opts) = Some g"
  shows "raised (run G R c opts) \<noteq> None \<and> started_tasks (events (run G R c opts)) = []"
proof -
  have "raised (run G R c opts) \<noteq> None"
  proof
    assume "raised (run G R c opts) = None"
    from run_returned[OF this assms(2)] assms(1) show False by simp
  qed
  then show ?thesis using run_raised by blast
qed

section \<open>The reserved flag and the failures of assembly\<close>

text \<open>
  C10. With \<open>--time-series\<close> the run ends at once with the \<open>NotImplementedError\<close> of line
  40: \<open>sys.tracebacklimit\<close> is 0, so no stack frame is printed, and nothing has happened
  before, neither the loading of the configuration nor the start of a task.
\<close>

theorem time_series_aborts:
  assumes "time_series opts"
  shows "run get_control_dict realpath config_path opts =
           \<lparr>raised = Some (NotImplementedError ''--time-series option not implemented yet''),
            tracebacklimit = Some 0, events = [], final_store = None, final_dag = None\<rparr>"
  using assms by (simp add: run_def)

theorem time_series_aborts_witness:
  "time_series (no_flags\<lparr>time_series := True\<rparr>) \<and>
   run (\<lambda>p. Inr example_control) id ''config.yml'' (no_flags\<lparr>time_series := True\<rparr>) =
     \<lparr>raised = Some (NotImplementedError ''--time-series option not implemented yet''),
      tracebacklimit = Some 0, events = [], final_store = None, final_dag = None\<rparr>"
proof -
  have h: "time_series (no_flags\<lparr>time_series := True\<rparr>)" by simp
  show ?thesis
    using h time_series_aborts[OF h, of "\<lambda>p. Inr example_control" id "''config.yml''"] by simp
qed

text \<open>
  C4. When a task of the graph names a dependency that is not a task of the graph,
  assembly fails with \<open>UnresolvedDependencyError\<close> for such a name, so does the build,
  and a run that has come to this graph ends with an exception and has started no
  task.
\<close>

theorem unresolved_dependency_fails:
  assumes "(n, t) \<in> set ts" and "d \<in> set (task_deps t)" and "d \<notin> fst ` set ts"
  shows "\<exists>n' d'. d' \<notin> fst ` set ts \<and>
           assemble ts = Inl (UnresolvedDependencyError n' d') \<and>
           build \<lparr>executor = m, tasks = ts\<rparr> = Inl (UnresolvedDependencyError n' d') \<and>
           (final_dag (run G R c opts) = Some \<lparr>executor = m, tasks = ts\<rparr> \<longrightarrow>
              raised (run G R c opts) \<noteq> None \<and> started_tasks (events (run G R c opts)) = [])"
proof -
  from unresolved_assemble[OF assms] obtain n' d' where
    a: "d' \<notin> fst ` set ts" "assemble ts = Inl (UnresolvedDependencyError n' d')"
    by blast
  have b: "build \<lparr>executor = m, tasks = ts\<rparr> = Inl (UnresolvedDependencyError n' d')"
    using a(2) by (rule build_assemble_Inl)
  show ?thesis
    using a b run_build_fails[OF b] by blast
qed

theorem unresolved_dependency_fails_witness:
  "(''plot_atm'', example_task [''missing_task'']) \<in> set unresolved_tasks \<and>
   ''missing_task'' \<in> set (task_deps (example_task [''missing_task''])) \<and>
   ''missing_task'' \<notin> fst ` set unresolved_tasks \<and>
   final_dag (run (\<lambda>p. Inr (example_control_of (example_category
       [(''setup'', []), (''plot_atm'', [''missing_task''])]))) id ''config.yml'' no_flags)
     = Some \<lparr>executor = Serial, tasks = unresolved_tasks\<rparr> \<and>
   (\<exists>n' d'. d' \<notin> fst ` set unresolved_tasks \<and>
      assemble unresolved_tasks = Inl (UnresolvedDependencyError n' d') \<and>
      build \<lparr>executor = Serial, tasks = unresolved_tasks\<rparr>
        = Inl (UnresolvedDependencyError n' d') \<and>
      raised (run (\<lambda>p. Inr (example_control_of (example_category
          [(''setup'', []), (''plot_atm'', [''missing_task''])]))) id ''config.yml'' no_flags)
        \<noteq> None \<and>
      started_tasks (events (run (\<lambda>p. Inr (example_control_of (example_category
          [(''setup'', []), (''plot_atm'', [''missing_task''])]))) id ''config.yml'' no_flags))
        = [])"
proof -
  have h1: "(''plot_atm'', example_task [''missing_task'']) \<in> set unresolved_tasks"
    by (simp add: unresolved_tasks_def)
  have h2: "''missing_task'' \<in> set (task_deps (example_task [''missing_task'']))"
    by (simp add: example_task_def)
  have h3: "''missing_task'' \<notin> fst ` set unresolved_tasks"
    by (simp add: unresolved_tasks_def)
  have h4: "final_dag (run (\<lambda>p. Inr (example_control_of (example_category
       [(''setup'', []), (''plot_atm'', [''missing_task''])]))) id ''config.yml'' no_flags)
     = Some \<lparr>executor = Serial, tasks = unresolved_tasks\<rparr>"
    by code_simp
  show ?thesis
    using h1 h2 h3 h4
      unresolved_dependency_fails[OF h1 h2 h3, of Serial "\<lambda>p. Inr (example_control_of
        (example_category [(''setup'', []), (''plot_atm'', [''missing_task''])]))" id
        "''config.yml''" no_flags]
    by blast
qed

text \<open>
  C5. When every dependency names a task of the graph and the edges form a cycle,
  assembly fails with \<open>CyclicDependencyError\<close>, so does the build, and a run that has
  come to this graph ends with an exception and has started no task. The keys of the
  graph are distinct, as those of every dictionary.
\<close>

theorem cycle_fails:
  assumes "distinct (map fst ts)" and "unresolved ts = []" and "cyclic ts"
  shows "assemble ts = Inl CyclicDependencyError \<and>
         build \<lparr>executor = m, tasks = ts\<rparr> = Inl CyclicDependencyError \<and>
         (final_dag (run G R c opts) = Some \<lparr>executor = m, tasks = ts\<rparr> \<longrightarrow>
            raised (run G R c opts) \<noteq> None \<and> started_tasks (events (run G R c opts)) = [])"
proof -
  have a: "assemble ts = Inl CyclicDependencyError"
    using assms by (rule cyclic_assemble)
  have b: "build \<lparr>executor = m, tasks = ts\<rparr> = Inl CyclicDependencyError"
    using a by (rule build_assemble_Inl)
  show ?thesis
    using a b run_build_fails[OF b] by blast
qed

lemma edgesI: "(n, t) \<in> set ts \<Longrightarrow> d \<in> set (task_deps t) \<Longrightarrow> (d, n) \<in> edges ts"
  unfolding edges_def by blast

lemma cyclic_tasks_edges:
  "(''a'', ''b'') \<in> edges (cyclic_tasks @ rest)" "(''b'', ''a'') \<in> edges (cyclic_tasks @ rest)"
proof -
  show "(''a'', ''b'') \<in> edges (cyclic_tasks @ rest)"
    by (rule edgesI[of _ "example_task [''a'']"]) (simp_all add: cyclic_tasks_def example_task_def)
  show "(''b'', ''a'') \<in> edges (cyclic_tasks @ rest)"
    by (rule edgesI[of _ "example_task [''b'']"]) (simp_all add: cyclic_tasks_def example_task_def)
qed

lemma cyclic_tasks_cyclic: "cyclic (cyclic_tasks @ rest)"
  unfolding cyclic_def
  using cyclic_tasks_edges[of rest] by (meson trancl.intros)

theorem cycle_fails_witness:
  "distinct (map fst cyclic_tasks) \<and> unresolved cyclic_tasks = [] \<and> cyclic cyclic_tasks \<and>
   final_dag (run (\<lambda>p. Inr (example_control_of (example_category
       [(''a'', [''b'']), (''b'', [''a''])]))) id ''config.yml'' no_flags)
     = Some \<lparr>executor = Serial, tasks = cyclic_tasks\<rparr> \<and>
   assemble cyclic_tasks = Inl CyclicDependencyError \<and>
   build \<lparr>executor = Serial, tasks = cyclic_tasks\<rparr> = Inl CyclicDependencyError \<and>
   raised (run (\<lambda>p. Inr (example_control_of (example_category
       [(''a'', [''b'']), (''b'', [''a''])]))) id ''config.yml'' no_flags) \<noteq> None \<and>
   started_tasks (events (run (\<lambda>p. Inr (example_control_of (example_category
       [(''a'', [''b'']), (''b'', [''a''])]))) id ''config.yml'' no_flags)) = []"
proof -
  have h1: "distinct (map fst cyclic_tasks)"
    by (simp add: cyclic_tasks_def)
  have h2: "unresolved cyclic_tasks = []"
    by code_simp
  have h3: "cyclic cyclic_tasks"
    using cyclic_tasks_cyclic[of "[]"] by simp
  have h4: "final_dag (run (\<lambda>p. Inr (example_control_of (example_category
       [(''a'', [''b'']), (''b'', [''a''])]))) id ''config.yml'' no_flags)
     = Some \<lparr>executor = Serial, tasks = cyclic_tasks\<rparr>"
    by code_simp
  show ?thesis
    using h1 h2 h3 h4
      cycle_fails[OF h1 h2 h3, of Serial "\<lambda>p. Inr (example_control_of
        (example_category [(''a'', [''b'']), (''b'', [''a''])]))" id "''config.yml''" no_flags]
    by blast
qed

text \<open>
  As stated, for every set of tasks whose edges form a cycle, C5 fails: with the cycle
  and one more task whose dependency is not there, the error is
  \<open>UnresolvedDependencyError\<close>.
\<close>

theorem cycle_with_unresolved_counterexample:
  "cyclic cyclic_unresolved_tasks \<and>
   final_dag (run (\<lambda>p. Inr (example_control_of (example_category
       [(''a'', [''b'']), (''b'', [''a'']), (''c'', [''missing_task''])])))
       id ''config.yml'' no_flags)
     = Some \<lparr>executor = Serial, tasks = cyclic_unresolved_tasks\<rparr> \<and>
   assemble cyclic_unresolved_tasks = Inl (UnresolvedDependencyError ''c'' ''missing_task'') \<and>
   raised (run (\<lambda>p. Inr (example_control_of (example_category
       [(''a'', [''b'']), (''b'', [''a'']), (''c'', [''missing_task''])])))
       id ''config.yml'' no_flags)
     = Some (UnresolvedDependencyError ''c'' ''missing_task'')"
proof -
  have "cyclic cyclic_unresolved_tasks"
    unfolding cyclic_unresolved_tasks_def by (rule cyclic_tasks_cyclic)
  moreover have "final_dag (run (\<lambda>p. Inr (example_control_of (example_category
       [(''a'', [''b'']), (''b'', [''a'']), (''c'', [''missing_task''])])))
       id ''config.yml'' no_flags)
     = Some \<lparr>executor = Serial, tasks = cyclic_unresolved_tasks\<rparr>"
    by code_simp
  moreover have "assemble cyclic_unresolved_tasks
     = Inl (UnresolvedDependencyError ''c'' ''missing_task'')"
    by code_simp
  moreover have "raised (run (\<lambda>p. Inr (example_control_of (example_category
       [(''a'', [''b'']), (''b'', [''a'']), (''c'', [''missing_task''])])))
       id ''config.yml'' no_flags)
     = Some (UnresolvedDependencyError ''c'' ''missing_task'')"
    by code_simp
  ultimately show ?thesis by blast
qed

section \<open>Merging categories\<close>

lemma map_add_upd_left: "m(k \<mapsto> v) ++ n = m ++ ([k \<mapsto> v] ++ n)"
  by (rule ext) (simp add: map_add_def split: option.splits)

lemma map_of_merge_items: "map_of (merge_items acc cat) = map_of acc ++ map_of (rev cat)"
proof (induction cat arbitrary: acc)
  case Nil
  then show ?case by (simp add: merge_items_def)
next
  case (Cons p cat)
  obtain k v where p: "p = (k, v)" by (cases p)
  have "merge_items acc (p # cat) = merge_items (AList.update k v acc) cat"
    by (simp add: merge_items_def p)
  then have "map_of (merge_items acc (p # cat))
      = map_of (AList.update k v acc) ++ map_of (rev cat)"
    by (simp only: Cons.IH)
  also have "\<dots> = (map_of acc)(k \<mapsto> v) ++ map_of (rev cat)"
    by (simp only: AList.update_conv')
  also have "\<dots> = map_of acc ++ ([k \<mapsto> v] ++ map_of (rev cat))"
    by (rule map_add_upd_left)
  also have "[k \<mapsto> v] ++ map_of (rev cat) = map_of (rev (p # cat))"
    by (simp add: p)
  finally show ?case .
qed

lemma map_of_foldl_merge:
  "map_of (foldl merge_items acc cs) = map_of acc ++ map_of (rev (concat cs))"
proof (induction cs arbitrary: acc)
  case Nil
  then show ?case by simp
next
  case (Cons c cs)
  have "map_of (foldl merge_items acc (c # cs))
          = (map_of acc ++ map_of (rev c)) ++ map_of (rev (concat cs))"
    by (simp add: Cons.IH map_of_merge_items)
  then show ?case by simp
qed

lemma keys_merge_items: "fst ` set (merge_items acc cat) = fst ` set acc \<union> fst ` set cat"
proof (induction cat arbitrary: acc)
  case Nil
  then show ?case by (simp add: merge_items_def)
next
  case (Cons p cat)
  obtain k v where p: "p = (k, v)" by (cases p)
  have "merge_items acc (p # cat) = merge_items (AList.update k v acc) cat"
    by (simp add: merge_items_def p)
  then show ?case
    by (simp add: Cons.IH AList.dom_update p Un_ac insert_commute)
qed

lemma keys_foldl_merge: "fst ` set acc \<subseteq> fst ` set (foldl merge_items acc cs)"
proof (induction cs arbitrary: acc)
  case Nil
  then show ?case by simp
next
  case (Cons c cs)
  have "fst ` set acc \<subseteq> fst ` set (merge_items acc c)"
    by (simp add: keys_merge_items)
  also have "\<dots> \<subseteq> fst ` set (foldl merge_items (merge_items acc c) cs)"
    by (rule Cons.IH)
  finally show ?case by simp
qed

lemma distinct_merge_items:
  "distinct (map fst acc) \<Longrightarrow> distinct (map fst (merge_items acc cat))"
proof (induction cat arbitrary: acc)
  case Nil
  then show ?case by (simp add: merge_items_def)
next
  case (Cons p cat)
  obtain k v where p: "p = (k, v)" by (cases p)
  have "merge_items acc (p # cat) = merge_items (AList.update k v acc) cat"
    by (simp add: merge_items_def p)
  moreover have "distinct (map fst (AList.update k v acc))"
    using Cons.prems by (rule AList.distinct_update)
  ultimately show ?case using Cons.IH by simp
qed

lemma distinct_foldl_merge:
  "distinct (map fst acc) \<Longrightarrow> distinct (map fst (foldl merge_items acc cs))"
  by (induction cs arbitrary: acc) (simp_all add: distinct_merge_items)

lemma merge_components_eq:
  "merge_components k cat comps (acc, ws) =
     (foldl merge_items acc (selected_categories cat comps), ws @ missing_components k cat comps)"
proof (induction comps arbitrary: acc ws)
  case Nil
  then show ?case by (simp add: selected_categories_def missing_components_def)
next
  case (Cons p comps)
  obtain name flag where p: "p = (name, flag)" by (cases p)
  have sel: "selected_categories cat (p # comps) =
      (if flag then (case map_of cat name of Some c \<Rightarrow> [c] | None \<Rightarrow> []) else [])
        @ selected_categories cat comps"
    by (simp add: selected_categories_def p)
  have mis: "missing_components k cat (p # comps) =
      (if flag \<and> map_of cat name = None then [NoTasksForComponent k name] else [])
        @ missing_components k cat comps"
    by (simp add: missing_components_def p)
  show ?case
    unfolding p[symmetric] sel mis
    by (simp add: p Cons.IH split: option.splits)
qed

lemma organize_scripts_eq:
  "organize_scripts cat opts a =
     (foldl merge_items [] (script_merge_order cat opts a),
      (if default_all opts a then [] else missing_components Script cat (component_options opts)),
      default_all opts a)"
  by (simp add: organize_scripts_def script_merge_order_def merge_all_categories_def
      merge_components_eq Let_def)

lemma organize_notebooks_eq:
  assumes "map_of cat ''infrastructure'' = Some infra"
  shows "organize_notebooks cat opts a =
     Inr (foldl merge_items (merge_items [] infra) (script_merge_order cat opts a),
          (if default_all opts a then []
           else missing_components Notebook cat (component_options opts)),
          default_all opts a)"
  using assms
  by (simp add: organize_notebooks_def script_merge_order_def merge_all_categories_def
      merge_components_eq Let_def)

lemma organize_notebooks_Inr:
  assumes "organize_notebooks cat opts a = Inr r"
  shows "\<exists>infra. map_of cat ''infrastructure'' = Some infra"
  using assms by (cases "map_of cat ''infrastructure''") (simp_all add: organize_notebooks_def)

lemma filter_other_keys: "k \<notin> fst ` set xs \<Longrightarrow> filter (\<lambda>(name, c). name \<noteq> k) xs = xs"
  by (induction xs) auto

lemma map_add_twice: "m ++ m ++ n = m ++ (n :: 'a \<rightharpoonup> 'b)"
  by (rule ext) (simp add: map_add_def split: option.splits)

lemma last_write_wins_twice: "last_write_wins (c # c # cs) = last_write_wins (c # cs)"
  by (simp add: last_write_wins_def map_add_twice)

text \<open>
  C8. The universe holds, for every name, the entry of the last category in the order
  in which the code merges: for notebooks \<open>infrastructure\<close> and then, if all is
  selected, every category of the section in configuration order (\<open>infrastructure\<close>
  once more at its own place), otherwise the selected components in the order
  atmosphere, ocean, land, seaice, landice; for scripts the same without the leading
  \<open>infrastructure\<close>. When all is selected and \<open>infrastructure\<close> is the first category of
  the notebook section, this is the order of the specification.
\<close>

theorem merge_is_last_write_wins:
  "(organize_notebooks cat opts a = Inr (u, ws, a') \<longrightarrow>
      map_of u = last_write_wins (notebook_merge_order cat opts a)) \<and>
   map_of (fst (organize_scripts cat opts a)) = last_write_wins (script_merge_order cat opts a) \<and>
   (default_all opts a \<and> cat = (''infrastructure'', infra) # rest \<and>
      ''infrastructure'' \<notin> fst ` set rest \<longrightarrow>
      last_write_wins (notebook_merge_order cat opts a) = last_write_wins (spec_merge_order cat))"
proof (intro conjI impI)
  assume org: "organize_notebooks cat opts a = Inr (u, ws, a')"
  then obtain infra' where infra': "map_of cat ''infrastructure'' = Some infra'"
    using organize_notebooks_Inr by blast
  have "u = foldl merge_items (merge_items [] infra') (script_merge_order cat opts a)"
    using org organize_notebooks_eq[OF infra'] by simp
  then have "map_of u = map_of (rev infra') ++ map_of (rev (concat (script_merge_order cat opts a)))"
    by (simp add: map_of_foldl_merge map_of_merge_items)
  then show "map_of u = last_write_wins (notebook_merge_order cat opts a)"
    by (simp add: last_write_wins_def notebook_merge_order_def infra')
next
  show "map_of (fst (organize_scripts cat opts a)) = last_write_wins (script_merge_order cat opts a)"
    by (simp add: organize_scripts_eq map_of_foldl_merge last_write_wins_def)
next
  assume h: "default_all opts a \<and> cat = (''infrastructure'', infra) # rest \<and>
      ''infrastructure'' \<notin> fst ` set rest"
  have keep: "filter (\<lambda>(name, c). name \<noteq> ''infrastructure'') rest = rest"
    using h by (simp add: filter_other_keys)
  have "notebook_merge_order cat opts a = infra # infra # map snd rest"
    using h by (simp add: notebook_merge_order_def script_merge_order_def)
  moreover have "spec_merge_order cat = infra # map snd rest"
    using h keep by (simp add: spec_merge_order_def)
  ultimately show "last_write_wins (notebook_merge_order cat opts a)
      = last_write_wins (spec_merge_order cat)"
    by (simp add: last_write_wins_twice)
qed

theorem merge_is_last_write_wins_witness:
  "organize_notebooks example_catalog no_flags False
     = Inr ([(''setup'', example_info ''base'' None),
             (''plot_atm'', example_info ''base'' (Some (DepName ''setup'')))], [], True) \<and>
   default_all no_flags False \<and>
   example_catalog = (''infrastructure'', [(''setup'', example_info ''base'' None)])
     # [(''atmosphere'', [(''plot_atm'', example_info ''base'' (Some (DepName ''setup'')))])] \<and>
   ''infrastructure'' \<notin> fst ` set
      [(''atmosphere'', [(''plot_atm'', example_info ''base'' (Some (DepName ''setup'')))])] \<and>
   map_of [(''setup'', example_info ''base'' None),
           (''plot_atm'', example_info ''base'' (Some (DepName ''setup'')))]
     = last_write_wins (notebook_merge_order example_catalog no_flags False) \<and>
   last_write_wins (notebook_merge_order example_catalog no_flags False)
     = last_write_wins (spec_merge_order example_catalog)"
proof -
  have h1: "organize_notebooks example_catalog no_flags False
     = Inr ([(''setup'', example_info ''base'' None),
             (''plot_atm'', example_info ''base'' (Some (DepName ''setup'')))], [], True)"
    by code_simp
  have h2: "default_all no_flags False"
    by code_simp
  have h3: "example_catalog = (''infrastructure'', [(''setup'', example_info ''base'' None)])
     # [(''atmosphere'', [(''plot_atm'', example_info ''base'' (Some (DepName ''setup'')))])]"
    by (simp add: example_catalog_def)
  have h4: "''infrastructure'' \<notin> fst ` set
      [(''atmosphere'', [(''plot_atm'', example_info ''base'' (Some (DepName ''setup'')))])]"
    by simp
  show ?thesis
    using h1 h2 h3 h4
      merge_is_last_write_wins[of example_catalog no_flags False
        "[(''setup'', example_info ''base'' None),
          (''plot_atm'', example_info ''base'' (Some (DepName ''setup'')))]" "[]" True
        "[(''setup'', example_info ''base'' None)]"
        "[(''atmosphere'', [(''plot_atm'', example_info ''base'' (Some (DepName ''setup'')))])]"]
    by blast
qed

text \<open>
  As stated, C8 fails twice. With \<open>infrastructure\<close> listed after \<open>atmosphere\<close> and all
  selected, the entry of \<open>infrastructure\<close> stays, where the order of the specification
  gives the one of \<open>atmosphere\<close>. With \<open>ocean\<close> listed before \<open>atmosphere\<close> and both
  flags set, the entry of \<open>ocean\<close> stays, where configuration order gives the one of
  \<open>atmosphere\<close>.
\<close>

theorem merge_order_counterexample:
  "organize_notebooks infrastructure_last_catalog no_flags False
     = Inr ([(''plot'', example_info ''base'' None)], [], True) \<and>
   last_write_wins (spec_merge_order infrastructure_last_catalog) ''plot''
     = Some (example_info ''atm_env'' None) \<and>
   organize_notebooks ocean_first_catalog (no_flags\<lparr>atmosphere := True, ocean := True\<rparr>) False
     = Inr ([(''plot'', example_info ''ocn_env'' None)], [], False) \<and>
   last_write_wins (spec_merge_order ocean_first_catalog) ''plot''
     = Some (example_info ''atm_env'' None) \<and>
   example_info ''base'' None \<noteq> example_info ''atm_env'' None \<and>
   example_info ''ocn_env'' None \<noteq> example_info ''atm_env'' None"
proof (intro conjI)
  show "organize_notebooks infrastructure_last_catalog no_flags False
     = Inr ([(''plot'', example_info ''base'' None)], [], True)"
    by code_simp
  show "last_write_wins (spec_merge_order infrastructure_last_catalog) ''plot''
     = Some (example_info ''atm_env'' None)"
    by code_simp
  show "organize_notebooks ocean_first_catalog (no_flags\<lparr>atmosphere := True, ocean := True\<rparr>)
      False = Inr ([(''plot'', example_info ''ocn_env'' None)], [], False)"
    by code_simp
  show "last_write_wins (spec_merge_order ocean_first_catalog) ''plot''
     = Some (example_info ''atm_env'' None)"
    by code_simp
  show "example_info ''base'' None \<noteq> example_info ''atm_env'' None"
    by (simp add: example_info_def)
  show "example_info ''ocn_env'' None \<noteq> example_info ''atm_env'' None"
    by (simp add: example_info_def)
qed

section \<open>The environment check\<close>

lemma check_environments_all_known:
  assumes "\<forall>(n, i) \<in> set items. known env i"
  shows "check_environments k (Some env) items (acc, ws) =
           (ws @ environment_warnings k env items,
            Inr (filter (\<lambda>p. fst p \<notin> fst ` {q \<in> set items. \<not> available env (snd q)}) acc))"
  using assms
proof (induction items arbitrary: acc ws)
  case Nil
  then show ?case by (simp add: environment_warnings_def)
next
  case (Cons x rest)
  obtain nb i where x: "x = (nb, i)" by (cases x)
  have rest_known: "\<forall>(n, i) \<in> set rest. known env i"
    using Cons.prems by simp
  have "known env i" using Cons.prems x by simp
  then obtain kn b where kn: "kernel_name i = Some kn" and b: "map_of env kn = Some b"
    by (auto simp: known_def split: option.splits)
  show ?case
  proof (cases b)
    case True
    then have av: "available env i" using kn b by (simp add: available_def)
    have "check_environments k (Some env) (x # rest) (acc, ws)
            = check_environments k (Some env) rest (acc, ws)"
      using kn b True by (simp add: x)
    moreover have "environment_warnings k env (x # rest) = environment_warnings k env rest"
      using kn b True by (simp add: environment_warnings_def x)
    moreover have "{q \<in> set (x # rest). \<not> available env (snd q)}
            = {q \<in> set rest. \<not> available env (snd q)}"
      using av by (auto simp: x)
    ultimately show ?thesis
      using Cons.IH[OF rest_known] by simp
  next
    case False
    then have av: "\<not> available env i" using kn b by (simp add: available_def)
    have "check_environments k (Some env) (x # rest) (acc, ws)
            = check_environments k (Some env) rest
                (AList.delete nb acc, ws @ [EnvironmentNotFound k kn nb])"
      using kn b False by (simp add: x)
    moreover have "environment_warnings k env (x # rest)
            = EnvironmentNotFound k kn nb # environment_warnings k env rest"
      using kn b False by (simp add: environment_warnings_def x)
    moreover have "{q \<in> set (x # rest). \<not> available env (snd q)}
            = insert (nb, i) {q \<in> set rest. \<not> available env (snd q)}"
      using av by (auto simp: x)
    moreover have "filter (\<lambda>p. fst p \<notin> fst ` {q \<in> set rest. \<not> available env (snd q)})
              (AList.delete nb acc)
            = filter (\<lambda>p. fst p \<notin> fst ` insert (nb, i) {q \<in> set rest. \<not> available env (snd q)})
                acc"
      by (induction acc) (auto simp: AList.delete_eq)
    ultimately show ?thesis
      using Cons.IH[OF rest_known] by simp
  qed
qed

lemma same_key_same_entry:
  "distinct (map fst u) \<Longrightarrow> p \<in> set u \<Longrightarrow> q \<in> set u \<Longrightarrow> fst p = fst q \<Longrightarrow> p = q"
  by (metis distinct_map inj_onD)

lemma filter_dropped_distinct:
  assumes "distinct (map fst u)"
  shows "filter (\<lambda>p. fst p \<notin> fst ` {q \<in> set u. \<not> available env (snd q)}) u
           = filter (\<lambda>(n, i). available env i) u"
proof (rule filter_cong[OF refl])
  fix p assume p: "p \<in> set u"
  have "fst p \<in> fst ` {q \<in> set u. \<not> available env (snd q)} \<longleftrightarrow> \<not> available env (snd p)"
  proof
    assume "fst p \<in> fst ` {q \<in> set u. \<not> available env (snd q)}"
    then obtain q where q: "q \<in> set u" "\<not> available env (snd q)" "fst p = fst q"
      by auto
    then have "p = q" using same_key_same_entry[OF assms p] by blast
    then show "\<not> available env (snd p)" using q(2) by simp
  next
    assume "\<not> available env (snd p)"
    then show "fst p \<in> fst ` {q \<in> set u. \<not> available env (snd q)}"
      using p by blast
  qed
  then show "(fst p \<notin> fst ` {q \<in> set u. \<not> available env (snd q)})
               = (case p of (n, i) \<Rightarrow> available env i)"
    by (simp add: case_prod_beta)
qed

lemma check_environments_universe:
  assumes "\<forall>(n, i) \<in> set u. known env i" and "distinct (map fst u)"
  shows "check_environments k (Some env) u (u, ws) =
           (ws @ environment_warnings k env u, Inr (filter (\<lambda>(n, i). available env i) u))"
  using check_environments_all_known[OF assms(1)] filter_dropped_distinct[OF assms(2)]
  by simp

lemma check_environments_unknown:
  assumes "\<exists>(n, i) \<in> set items. \<not> known env i"
  shows "\<exists>ws' key. check_environments k (Some env) items (acc, ws) = (ws', Inl (KeyError key))"
  using assms
proof (induction items arbitrary: acc ws)
  case Nil
  then show ?case by simp
next
  case (Cons x rest)
  obtain nb i where x: "x = (nb, i)" by (cases x)
  show ?case
  proof (cases "known env i")
    case False
    then show ?thesis
      by (auto simp: x known_def split: option.splits)
  next
    case True
    then obtain kn b where kn: "kernel_name i = Some kn" and b: "map_of env kn = Some b"
      by (auto simp: known_def split: option.splits)
    have "\<exists>(n, i) \<in> set rest. \<not> known env i"
      using Cons.prems True by (auto simp: x)
    from Cons.IH[OF this] show ?thesis
      using kn b by (simp add: x)
  qed
qed

lemma check_environments_keys:
  assumes "check_environments k ec items (acc, ws) = (ws', Inr u')"
  shows "set ws \<subseteq> set ws' \<and>
         (\<forall>n \<in> fst ` set acc. n \<in> fst ` set u' \<or> (\<exists>kn. EnvironmentNotFound k kn n \<in> set ws'))"
  using assms
proof (induction items arbitrary: acc ws)
  case Nil
  then show ?case by auto
next
  case (Cons x rest)
  obtain nb i where x: "x = (nb, i)" by (cases x)
  from Cons.prems obtain env kn b where
    ec: "ec = Some env" and kn: "kernel_name i = Some kn" and b: "map_of env kn = Some b"
    by (auto simp: x split: option.splits)
  show ?case
  proof (cases b)
    case True
    then have "check_environments k ec rest (acc, ws) = (ws', Inr u')"
      using Cons.prems ec kn b by (simp add: x)
    then show ?thesis by (rule Cons.IH)
  next
    case False
    then have "check_environments k ec rest
        (AList.delete nb acc, ws @ [EnvironmentNotFound k kn nb]) = (ws', Inr u')"
      using Cons.prems ec kn b by (simp add: x)
    from Cons.IH[OF this] have
      sub: "set (ws @ [EnvironmentNotFound k kn nb]) \<subseteq> set ws'" and
      keys: "\<forall>n \<in> fst ` set (AList.delete nb acc).
          n \<in> fst ` set u' \<or> (\<exists>kn. EnvironmentNotFound k kn n \<in> set ws')"
      by blast+
    have "\<forall>n \<in> fst ` set acc. n \<in> fst ` set u' \<or> (\<exists>kn. EnvironmentNotFound k kn n \<in> set ws')"
    proof
      fix n assume n: "n \<in> fst ` set acc"
      show "n \<in> fst ` set u' \<or> (\<exists>kn. EnvironmentNotFound k kn n \<in> set ws')"
      proof (cases "n = nb")
        case True
        then show ?thesis using sub by auto
      next
        case False
        then have "n \<in> fst ` set (AList.delete nb acc)"
          using n by (auto simp: AList.delete_eq image_iff)
        then show ?thesis using keys by blast
      qed
    qed
    then show ?thesis using sub by simp
  qed
qed

lemma organize_scripts_distinct: "distinct (map fst (fst (organize_scripts cat opts a)))"
  by (simp add: organize_scripts_eq distinct_foldl_merge)

lemma organize_notebooks_distinct:
  assumes "organize_notebooks cat opts a = Inr (u, ws, a')"
  shows "distinct (map fst u)"
proof -
  obtain infra where infra: "map_of cat ''infrastructure'' = Some infra"
    using assms organize_notebooks_Inr by blast
  have "u = foldl merge_items (merge_items [] infra) (script_merge_order cat opts a)"
    using assms organize_notebooks_eq[OF infra] by simp
  then show ?thesis
    by (simp add: distinct_foldl_merge distinct_merge_items)
qed

text \<open>
  C1. Let the environment mapping be there. When the kernel name of every task of a
  universe is a key of the mapping, the check raises nothing: the tasks whose kernel
  is mapped to false are removed, one warning each, and the others stay. When a task
  has a kernel name that is not a key (or has none), the check raises \<open>KeyError\<close>.
  Both hold for notebooks and for scripts.
\<close>

theorem unavailable_runtime_excluded:
  assumes "env_check ctl = Some env"
  shows "(organize_notebooks cat opts a = Inr (u, ws, a') \<longrightarrow>
            ((\<forall>(n, i) \<in> set u. known env i) \<longrightarrow>
               notebook_universe ctl cat opts a =
                 (ws @ environment_warnings Notebook env u,
                  Inr (filter (\<lambda>(n, i). available env i) u, a'))) \<and>
            ((\<exists>(n, i) \<in> set u. \<not> known env i) \<longrightarrow>
               (\<exists>ws' key. notebook_universe ctl cat opts a = (ws', Inl (KeyError key))))) \<and>
         (organize_scripts cat opts a = (u, ws, a') \<longrightarrow>
            ((\<forall>(n, i) \<in> set u. known env i) \<longrightarrow>
               script_universe ctl cat opts a =
                 (ws @ environment_warnings Script env u,
                  Inr (filter (\<lambda>(n, i). available env i) u, a'))) \<and>
            ((\<exists>(n, i) \<in> set u. \<not> known env i) \<longrightarrow>
               (\<exists>ws' key. script_universe ctl cat opts a = (ws', Inl (KeyError key)))))"
proof (intro conjI impI)
  assume org: "organize_notebooks cat opts a = Inr (u, ws, a')"
    and kn: "\<forall>(n, i) \<in> set u. known env i"
  have "distinct (map fst u)" using org by (rule organize_notebooks_distinct)
  from check_environments_universe[OF kn this, of Notebook ws]
  show "notebook_universe ctl cat opts a =
          (ws @ environment_warnings Notebook env u, Inr (filter (\<lambda>(n, i). available env i) u, a'))"
    using org assms by (simp add: notebook_universe_def)
next
  assume org: "organize_notebooks cat opts a = Inr (u, ws, a')"
    and un: "\<exists>(n, i) \<in> set u. \<not> known env i"
  from check_environments_unknown[OF un, of Notebook u ws]
  show "\<exists>ws' key. notebook_universe ctl cat opts a = (ws', Inl (KeyError key))"
    using org assms by (auto simp: notebook_universe_def)
next
  assume org: "organize_scripts cat opts a = (u, ws, a')"
    and kn: "\<forall>(n, i) \<in> set u. known env i"
  have "distinct (map fst u)" using organize_scripts_distinct[of cat opts a] org by simp
  from check_environments_universe[OF kn this, of Script ws]
  show "script_universe ctl cat opts a =
          (ws @ environment_warnings Script env u, Inr (filter (\<lambda>(n, i). available env i) u, a'))"
    using org assms by (simp add: script_universe_def)
next
  assume org: "organize_scripts cat opts a = (u, ws, a')"
    and un: "\<exists>(n, i) \<in> set u. \<not> known env i"
  from check_environments_unknown[OF un, of Script u ws]
  show "\<exists>ws' key. script_universe ctl cat opts a = (ws', Inl (KeyError key))"
    using org assms by (auto simp: script_universe_def)
qed

theorem unavailable_runtime_excluded_witness:
  "env_check two_environments_control = Some [(''base'', True), (''atm_env'', False)] \<and>
   organize_notebooks two_environments_catalog no_flags False
     = Inr ([(''setup'', example_info ''base'' None),
             (''plot_atm'', example_info ''atm_env'' (Some (DepName ''setup'')))], [], True) \<and>
   organize_scripts two_environments_catalog no_flags False
     = ([(''setup'', example_info ''base'' None),
         (''plot_atm'', example_info ''atm_env'' (Some (DepName ''setup'')))], [], True) \<and>
   list_all (\<lambda>(n, i). known [(''base'', True), (''atm_env'', False)] i)
     [(''setup'', example_info ''base'' None),
      (''plot_atm'', example_info ''atm_env'' (Some (DepName ''setup'')))] \<and>
   (\<exists>(n, i) \<in> set [(''setup'', example_info ''base'' None),
                     (''plot_atm'', example_info ''atm_env'' (Some (DepName ''setup'')))].
      \<not> known [(''base'', True)] i) \<and>
   notebook_universe two_environments_control two_environments_catalog no_flags False
     = ([EnvironmentNotFound Notebook ''atm_env'' ''plot_atm''],
        Inr ([(''setup'', example_info ''base'' None)], True)) \<and>
   script_universe two_environments_control two_environments_catalog no_flags False
     = ([EnvironmentNotFound Script ''atm_env'' ''plot_atm''],
        Inr ([(''setup'', example_info ''base'' None)], True)) \<and>
   (\<exists>ws' key. notebook_universe unknown_environment_control two_environments_catalog
       no_flags False = (ws', Inl (KeyError key))) \<and>
   (\<exists>ws' key. script_universe unknown_environment_control two_environments_catalog
       no_flags False = (ws', Inl (KeyError key)))"
proof -
  let ?u = "[(''setup'', example_info ''base'' None),
             (''plot_atm'', example_info ''atm_env'' (Some (DepName ''setup'')))]"
  have e1: "env_check two_environments_control = Some [(''base'', True), (''atm_env'', False)]"
    by (simp add: two_environments_control_def)
  have e2: "env_check unknown_environment_control = Some [(''base'', True)]"
    by (simp add: unknown_environment_control_def)
  have n: "organize_notebooks two_environments_catalog no_flags False = Inr (?u, [], True)"
    by code_simp
  have s: "organize_scripts two_environments_catalog no_flags False = (?u, [], True)"
    by code_simp
  have k1: "\<forall>(n, i) \<in> set ?u. known [(''base'', True), (''atm_env'', False)] i"
    by code_simp
  have k2: "\<exists>(n, i) \<in> set ?u. \<not> known [(''base'', True)] i"
    by code_simp
  have w: "environment_warnings k [(''base'', True), (''atm_env'', False)] ?u
             = [EnvironmentNotFound k ''atm_env'' ''plot_atm'']" for k
    by (simp add: environment_warnings_def example_info_def)
  have f: "filter (\<lambda>(n, i). available [(''base'', True), (''atm_env'', False)] i) ?u
             = [(''setup'', example_info ''base'' None)]"
    by (simp add: available_def example_info_def)
  from unavailable_runtime_excluded[OF e1, of two_environments_catalog no_flags False ?u "[]" True]
  have "notebook_universe two_environments_control two_environments_catalog no_flags False
     = ([EnvironmentNotFound Notebook ''atm_env'' ''plot_atm''],
        Inr ([(''setup'', example_info ''base'' None)], True))"
    and "script_universe two_environments_control two_environments_catalog no_flags False
     = ([EnvironmentNotFound Script ''atm_env'' ''plot_atm''],
        Inr ([(''setup'', example_info ''base'' None)], True))"
    using n s k1 w f by simp_all
  moreover
  from unavailable_runtime_excluded[OF e2, of two_environments_catalog no_flags False ?u "[]" True]
  have "\<exists>ws' key. notebook_universe unknown_environment_control two_environments_catalog
       no_flags False = (ws', Inl (KeyError key))"
    and "\<exists>ws' key. script_universe unknown_environment_control two_environments_catalog
       no_flags False = (ws', Inl (KeyError key))"
    using n s k2 by blast+
  moreover have "list_all (\<lambda>(n, i). known [(''base'', True), (''atm_env'', False)] i) ?u"
    using k1 by (simp only: list_all_iff)
  ultimately show ?thesis
    using e1 n s k2 by blast
qed

text \<open>
  As stated, C1 fails for a kernel name that is not in the mapping at all: the lookup
  of line 131 (and of line 177) raises \<open>KeyError\<close>, there is no warning, and the run
  ends with the exception.
\<close>

theorem unknown_runtime_counterexample:
  "notebook_universe unknown_environment_control two_environments_catalog no_flags False
     = ([], Inl (KeyError ''atm_env'')) \<and>
   script_universe unknown_environment_control two_environments_catalog no_flags False
     = ([], Inl (KeyError ''atm_env'')) \<and>
   raised (run (\<lambda>p. Inr unknown_environment_control) id ''config.yml'' no_flags)
     = Some (KeyError ''atm_env'') \<and>
   started_tasks (events (run (\<lambda>p. Inr unknown_environment_control) id ''config.yml'' no_flags))
     = []"
proof (intro conjI)
  show "notebook_universe unknown_environment_control two_environments_catalog no_flags False
     = ([], Inl (KeyError ''atm_env''))"
    by code_simp
  show "script_universe unknown_environment_control two_environments_catalog no_flags False
     = ([], Inl (KeyError ''atm_env''))"
    by code_simp
  show "raised (run (\<lambda>p. Inr unknown_environment_control) id ''config.yml'' no_flags)
     = Some (KeyError ''atm_env'')"
    by code_simp
  show "started_tasks (events (run (\<lambda>p. Inr unknown_environment_control) id ''config.yml''
      no_flags)) = []"
    by code_simp
qed

section \<open>Infrastructure and the default selection\<close>

lemma map_add_covered: "dom m \<subseteq> dom n \<Longrightarrow> m ++ n = n"
proof (rule ext)
  fix x assume sub: "dom m \<subseteq> dom n"
  show "(m ++ n) x = n x"
  proof (cases "n x")
    case None
    then have "x \<notin> dom m" using sub by blast
    then show ?thesis using None by (simp add: map_add_def domIff)
  next
    case (Some y)
    then show ?thesis by (simp add: map_add_def)
  qed
qed

lemma dom_map_of_rev: "dom (map_of (rev xs)) = fst ` set xs"
  by (simp add: dom_map_of_conv_image_fst)

lemma category_keys_in_catalog:
  assumes "map_of cat name = Some c"
  shows "fst ` set c \<subseteq> fst ` set (concat (map snd cat))"
proof -
  have "(name, c) \<in> set cat" using assms by (rule map_of_SomeD)
  then have "c \<in> set (map snd cat)" by force
  then show ?thesis by auto
qed

text \<open>
  C3. For notebooks, whatever the flags: every name listed under \<open>infrastructure\<close> is a
  key of the merged universe, and after the environment check it is still a key or a
  warning names it. Scripts have no infrastructure step of their own: as mappings,
  the notebook universe is the infrastructure entries overlaid by what the script
  algorithm gives for the same section, and the two agree when all is selected.
\<close>

theorem infrastructure_notebooks_always_merged:
  assumes "map_of cat ''infrastructure'' = Some infra"
  shows "\<exists>u ws a'. organize_notebooks cat opts a = Inr (u, ws, a') \<and>
           fst ` set infra \<subseteq> fst ` set u \<and>
           map_of u = map_of (merge_items [] infra) ++ map_of (fst (organize_scripts cat opts a)) \<and>
           (default_all opts a \<longrightarrow> map_of u = map_of (fst (organize_scripts cat opts a))) \<and>
           (\<forall>ws' u' a''. notebook_universe ctl cat opts a = (ws', Inr (u', a'')) \<longrightarrow>
              (\<forall>n \<in> fst ` set infra.
                 n \<in> fst ` set u' \<or> (\<exists>kn. EnvironmentNotFound Notebook kn n \<in> set ws')))"
proof -
  let ?order = "script_merge_order cat opts a"
  let ?u = "foldl merge_items (merge_items [] infra) ?order"
  let ?ws = "if default_all opts a then []
             else missing_components Notebook cat (component_options opts)"
  have org: "organize_notebooks cat opts a = Inr (?u, ?ws, default_all opts a)"
    using assms by (rule organize_notebooks_eq)
  have "fst ` set infra \<subseteq> fst ` set (merge_items [] infra)"
    by (simp add: keys_merge_items)
  also have "\<dots> \<subseteq> fst ` set ?u"
    by (rule keys_foldl_merge)
  finally have keys: "fst ` set infra \<subseteq> fst ` set ?u" .
  have maps: "map_of ?u
      = map_of (merge_items [] infra) ++ map_of (fst (organize_scripts cat opts a))"
    by (simp add: organize_scripts_eq map_of_foldl_merge)
  have all_case: "map_of ?u = map_of (fst (organize_scripts cat opts a))" if "default_all opts a"
  proof -
    have "?order = map snd cat" using that by (simp add: script_merge_order_def)
    then have s: "map_of (fst (organize_scripts cat opts a)) = map_of (rev (concat (map snd cat)))"
      by (simp add: organize_scripts_eq map_of_foldl_merge)
    have "dom (map_of (merge_items [] infra)) \<subseteq> dom (map_of (rev (concat (map snd cat))))"
      unfolding dom_map_of_rev
      using category_keys_in_catalog[OF assms]
      by (simp add: dom_map_of_conv_image_fst keys_merge_items)
    then show ?thesis
      unfolding maps s by (rule map_add_covered)
  qed
  have checked: "\<forall>n \<in> fst ` set infra.
        n \<in> fst ` set u' \<or> (\<exists>kn. EnvironmentNotFound Notebook kn n \<in> set ws')"
    if nu: "notebook_universe ctl cat opts a = (ws', Inr (u', a''))" for ws' u' a''
  proof -
    from nu have "check_environments Notebook (env_check ctl) ?u (?u, ?ws) = (ws', Inr u')"
      by (auto simp: notebook_universe_def org split: prod.splits sum.splits)
    from check_environments_keys[OF this] keys show ?thesis by blast
  qed
  show ?thesis
    using org keys maps all_case checked by blast
qed

theorem infrastructure_notebooks_always_merged_witness:
  "map_of example_catalog ''infrastructure'' = Some [(''setup'', example_info ''base'' None)] \<and>
   default_all no_flags False \<and>
   notebook_universe example_control example_catalog no_flags False
     = ([], Inr ([(''setup'', example_info ''base'' None),
                  (''plot_atm'', example_info ''base'' (Some (DepName ''setup'')))], True)) \<and>
   (\<exists>u ws a'. organize_notebooks example_catalog no_flags False = Inr (u, ws, a') \<and>
      fst ` set [(''setup'', example_info ''base'' None)] \<subseteq> fst ` set u \<and>
      map_of u = map_of (fst (organize_scripts example_catalog no_flags False)))"
proof -
  have h1: "map_of example_catalog ''infrastructure''
      = Some [(''setup'', example_info ''base'' None)]"
    by code_simp
  have h2: "default_all no_flags False"
    by code_simp
  have h3: "notebook_universe example_control example_catalog no_flags False
     = ([], Inr ([(''setup'', example_info ''base'' None),
                  (''plot_atm'', example_info ''base'' (Some (DepName ''setup'')))], True))"
    by code_simp
  show ?thesis
    using h1 h2 h3
      infrastructure_notebooks_always_merged[OF h1, of no_flags False example_control]
    by blast
qed

text \<open>
  As stated, C3 fails for scripts: with the flag \<open>atmosphere\<close> set, the script \<open>setup\<close>
  listed under \<open>infrastructure\<close> is not in the script universe, while the notebook of
  the same section is in the notebook universe.
\<close>

theorem infrastructure_scripts_counterexample:
  "map_of example_catalog ''infrastructure'' = Some [(''setup'', example_info ''base'' None)] \<and>
   script_universe example_control example_catalog (no_flags\<lparr>atmosphere := True\<rparr>) False
     = ([], Inr ([(''plot_atm'', example_info ''base'' (Some (DepName ''setup'')))], False)) \<and>
   notebook_universe example_control example_catalog (no_flags\<lparr>atmosphere := True\<rparr>) False
     = ([], Inr ([(''setup'', example_info ''base'' None),
                  (''plot_atm'', example_info ''base'' (Some (DepName ''setup'')))], False))"
proof (intro conjI)
  show "map_of example_catalog ''infrastructure''
      = Some [(''setup'', example_info ''base'' None)]"
    by code_simp
  show "script_universe example_control example_catalog (no_flags\<lparr>atmosphere := True\<rparr>) False
     = ([], Inr ([(''plot_atm'', example_info ''base'' (Some (DepName ''setup'')))], False))"
    by code_simp
  show "notebook_universe example_control example_catalog (no_flags\<lparr>atmosphere := True\<rparr>) False
     = ([], Inr ([(''setup'', example_info ''base'' None),
                  (''plot_atm'', example_info ''base'' (Some (DepName ''setup'')))], False))"
    by code_simp
qed

lemma default_all_selected:
  assumes "\<not> atmosphere opts" "\<not> ocean opts" "\<not> land opts" "\<not> seaice opts" "\<not> landice opts"
  shows "default_all opts a"
  using assms by (simp add: default_all_def)

lemma default_all_True: "default_all opts True"
  by (simp add: default_all_def)

lemma organize_notebooks_all:
  assumes "default_all opts a"
  shows "organize_notebooks cat opts a =
           (case map_of cat ''infrastructure'' of
              None \<Rightarrow> Inl (KeyError ''infrastructure'')
            | Some infra \<Rightarrow> Inr (merge_all_categories cat (merge_items [] infra), [], True))"
  using assms by (simp add: organize_notebooks_def Let_def split: option.splits)

lemma organize_scripts_all:
  assumes "default_all opts a"
  shows "organize_scripts cat opts a = (merge_all_categories cat [], [], True)"
  using assms by (simp add: organize_scripts_def Let_def)

lemma notebook_universe_all:
  assumes "default_all opts a" and "default_all opts' a'"
  shows "notebook_universe ctl cat opts a = notebook_universe ctl cat opts' a'"
  by (simp add: notebook_universe_def organize_notebooks_all[OF assms(1)]
      organize_notebooks_all[OF assms(2)])

lemma script_universe_all:
  assumes "default_all opts a" and "default_all opts' a'"
  shows "script_universe ctl cat opts a = script_universe ctl cat opts' a'"
  by (simp add: script_universe_def organize_scripts_all[OF assms(1)]
      organize_scripts_all[OF assms(2)])

text \<open>
  C2. When no component flag is set, each universe is the one of a run with \<open>--all\<close>,
  whatever component flags that run has and whatever value the variable \<open>all\<close> has
  when the section starts: the notebook section and the script section apply the
  default each on its own.
\<close>

theorem no_flags_selects_all:
  assumes "\<not> atmosphere opts" "\<not> ocean opts" "\<not> land opts" "\<not> seaice opts" "\<not> landice opts"
    and "all opts'"
  shows "notebook_universe ctl cat opts a = notebook_universe ctl cat opts' (all opts') \<and>
         script_universe ctl cat opts a = script_universe ctl cat opts' (all opts')"
proof -
  have d: "default_all opts a"
    using assms(1-5) by (rule default_all_selected)
  have d': "default_all opts' (all opts')"
    using assms(6) default_all_True by simp
  show ?thesis
    using notebook_universe_all[OF d d'] script_universe_all[OF d d'] by simp
qed

theorem no_flags_selects_all_witness:
  "\<not> atmosphere no_flags \<and> \<not> ocean no_flags \<and> \<not> land no_flags \<and> \<not> seaice no_flags \<and>
   \<not> landice no_flags \<and> all (no_flags\<lparr>all := True, ocean := True\<rparr>) \<and>
   notebook_universe example_control river_catalog no_flags False
     = notebook_universe example_control river_catalog (no_flags\<lparr>all := True, ocean := True\<rparr>)
         (all (no_flags\<lparr>all := True, ocean := True\<rparr>)) \<and>
   script_universe example_control river_catalog no_flags False
     = script_universe example_control river_catalog (no_flags\<lparr>all := True, ocean := True\<rparr>)
         (all (no_flags\<lparr>all := True, ocean := True\<rparr>))"
proof -
  have h: "\<not> atmosphere no_flags" "\<not> ocean no_flags" "\<not> land no_flags" "\<not> seaice no_flags"
    "\<not> landice no_flags"
    by (simp_all add: no_flags_def)
  have h': "all (no_flags\<lparr>all := True, ocean := True\<rparr>)"
    by simp
  show ?thesis
    using h h' no_flags_selects_all[OF h h', of example_control river_catalog False]
    by blast
qed

text \<open>
  As stated, with the five component flags set, C2 fails for both universes. Scripts:
  with no flag the script under \<open>infrastructure\<close> is in the universe, with the five
  flags it is not. Notebooks: with no flag the notebook of the category \<open>river\<close> is in
  the universe, with the five flags it is not.
\<close>

theorem all_components_counterexample:
  "snd (script_universe example_control example_catalog no_flags False)
     = Inr ([(''setup'', example_info ''base'' None),
             (''plot_atm'', example_info ''base'' (Some (DepName ''setup'')))], True) \<and>
   snd (script_universe example_control example_catalog every_component False)
     = Inr ([(''plot_atm'', example_info ''base'' (Some (DepName ''setup'')))], False) \<and>
   snd (notebook_universe example_control river_catalog no_flags False)
     = Inr ([(''setup'', example_info ''base'' None),
             (''plot_atm'', example_info ''base'' (Some (DepName ''setup''))),
             (''plot_rof'', example_info ''base'' None)], True) \<and>
   snd (notebook_universe example_control river_catalog every_component False)
     = Inr ([(''setup'', example_info ''base'' None),
             (''plot_atm'', example_info ''base'' (Some (DepName ''setup'')))], False)"
proof (intro conjI)
  show "snd (script_universe example_control example_catalog no_flags False)
     = Inr ([(''setup'', example_info ''base'' None),
             (''plot_atm'', example_info ''base'' (Some (DepName ''setup'')))], True)"
    by code_simp
  show "snd (script_universe example_control example_catalog every_component False)
     = Inr ([(''plot_atm'', example_info ''base'' (Some (DepName ''setup'')))], False)"
    by code_simp
  show "snd (notebook_universe example_control river_catalog no_flags False)
     = Inr ([(''setup'', example_info ''base'' None),
             (''plot_atm'', example_info ''base'' (Some (DepName ''setup''))),
             (''plot_rof'', example_info ''base'' None)], True)"
    by code_simp
  show "snd (notebook_universe example_control river_catalog every_component False)
     = Inr ([(''setup'', example_info ''base'' None),
             (''plot_atm'', example_info ''base'' (Some (DepName ''setup'')))], False)"
    by code_simp
qed

section \<open>The graph and the store during a run\<close>

lemma in_update_cases:
  "(n, t) \<in> set (AList.update k v al) \<Longrightarrow> (n, t) = (k, v) \<or> (n, t) \<in> set al"
  by (induction al) (auto split: if_splits)

lemma gp_read_write: "map_of (gp_read gp (gp_write gp k v st)) k = Some v"
  by (cases gp) (simp_all add: gp_read_def gp_write_def AList.update_conv')

lemma gp_write_twice: "gp_write gp k v (gp_write gp k v st) = gp_write gp k v st"
  by (cases gp) (simp_all add: gp_read_def gp_write_def)

lemma well_built_new_dag: "well_built cp gp ser new_dag"
  by (simp add: well_built_def new_dag_def)

lemma well_built_create:
  assumes "well_built cp gp ser g"
    and "k = Notebook \<longrightarrow> map_of (gp_read gp st) ''serial'' = Some (PyBool ser)"
  shows "well_built cp gp ser (create_ploomber_task k name i cp nr od gp st g d)"
proof -
  let ?node = "\<lparr>task_kind = k, task_info = i, task_cat_path = cp, task_nb_path_root = nr,
          task_output_dir = od, task_gp_ref = gp, task_global_params = gp_read gp st,
          task_deps = dep_names d\<rparr>"
  have t: "tasks (create_ploomber_task k name i cp nr od gp st g d)
      = AList.update name ?node (tasks g)"
    by (simp add: create_ploomber_task_def)
  have e: "executor (create_ploomber_task k name i cp nr od gp st g d) = executor g"
    by (simp add: create_ploomber_task_def)
  have d: "distinct (map fst (AList.update name ?node (tasks g)))"
    using assms(1) by (simp add: well_built_def AList.distinct_update)
  have "task_cat_path t = cp \<and> task_gp_ref t = gp \<and>
        (task_kind t = Notebook \<longrightarrow> map_of (task_global_params t) ''serial'' = Some (PyBool ser))"
    if "(n, t) \<in> set (AList.update name ?node (tasks g))" for n t
  proof -
    from in_update_cases[OF that] show ?thesis
    proof
      assume "(n, t) = (name, ?node)"
      then show ?thesis using assms(2) by auto
    next
      assume "(n, t) \<in> set (tasks g)"
      then show ?thesis using assms(1) by (auto simp: well_built_def)
    qed
  qed
  then show ?thesis
    using assms(1) d unfolding well_built_def t e by blast
qed

lemma setup_notebook_tasks_well_built:
  assumes "well_built cp gp ser g"
  shows "well_built cp gp ser (snd (setup_notebook_tasks ser cp nr od gp u (st, g)))"
  using assms
proof (induction u arbitrary: st g)
  case Nil
  then show ?case by simp
next
  case (Cons x u)
  obtain nb i where x: "x = (nb, i)" by (cases x)
  let ?st = "gp_write gp ''serial'' (PyBool ser) st"
  have "well_built cp gp ser (create_ploomber_task Notebook nb i cp nr (Some od) gp ?st g d)" for d
    using Cons.prems by (rule well_built_create) (simp add: gp_read_write)
  then show ?case
    by (cases "dependency i") (simp_all add: x Let_def Cons.IH)
qed

lemma setup_script_tasks_well_built:
  assumes "well_built cp gp ser g"
  shows "well_built cp gp ser (snd (setup_script_tasks cp nr gp u (st, g)))"
  using assms
proof (induction u arbitrary: g)
  case Nil
  then show ?case by simp
next
  case (Cons x u)
  obtain sc i where x: "x = (sc, i)" by (cases x)
  have "well_built cp gp ser (create_ploomber_task Script sc i cp nr None gp st g d)" for d
    using Cons.prems by (rule well_built_create) simp
  then show ?case
    by (cases "dependency i") (simp_all add: x Let_def Cons.IH)
qed

lemma setup_script_tasks_store: "fst (setup_script_tasks cp nr gp u (st, g)) = st"
  by (induction u arbitrary: g) (auto simp: Let_def)

lemma setup_notebook_tasks_store:
  "fst (setup_notebook_tasks ser cp nr od gp u (st, g))
     = (if u = [] then st else gp_write gp ''serial'' (PyBool ser) st)"
proof (induction u arbitrary: st g)
  case Nil
  then show ?case by simp
next
  case (Cons x u)
  obtain nb i where x: "x = (nb, i)" by (cases x)
  show ?case
    by (simp add: x Let_def Cons.IH gp_write_twice)
qed

lemma notebooks_section_Inr:
  assumes "notebooks_section opts cp nr od gp (a, st, g) = (ws, Inr (a1, st1, g1))"
    and "well_built cp gp (serial opts) g"
  shows "well_built cp gp (serial opts) g1 \<and>
         (st1 = st \<or> st1 = gp_write gp ''serial'' (PyBool (serial opts)) st)"
proof (cases "compute_notebooks (control_obj st)")
  case None
  then show ?thesis using assms by (simp add: notebooks_section_def)
next
  case (Some cat)
  from assms(1) Some obtain u a' where
    r: "setup_notebook_tasks (serial opts) cp nr od gp u (st, g) = (st1, g1)"
    by (auto simp: notebooks_section_def split: prod.splits sum.splits)
  have "well_built cp gp (serial opts) g1"
    using setup_notebook_tasks_well_built[OF assms(2), of nr od u st] r by simp
  moreover have "st1 = st \<or> st1 = gp_write gp ''serial'' (PyBool (serial opts)) st"
    using setup_notebook_tasks_store[of "serial opts" cp nr od gp u st g] r
    by (simp split: if_splits)
  ultimately show ?thesis by simp
qed

lemma scripts_section_Inr:
  assumes "scripts_section opts cp nr gp (a, st, g) = (ws, Inr (a1, st1, g1))"
    and "well_built cp gp ser g"
  shows "well_built cp gp ser g1 \<and> st1 = st"
proof (cases "compute_scripts (control_obj st)")
  case None
  then show ?thesis using assms by (simp add: scripts_section_def)
next
  case (Some cat)
  from assms(1) Some obtain u a' where
    r: "setup_script_tasks cp nr gp u (st, g) = (st1, g1)"
    by (auto simp: scripts_section_def split: prod.splits sum.splits)
  have "well_built cp gp ser g1"
    using setup_script_tasks_well_built[OF assms(2), of nr u st] r by simp
  moreover have "st1 = st"
    using setup_script_tasks_store[of cp nr gp u st g] r by simp
  ultimately show ?thesis by simp
qed

text \<open>The graph and the store a run ends with, whichever way it ends.\<close>

lemma run_control_final:
  assumes "final_dag (run_control R c opts ctl) = Some g"
    and "final_store (run_control R c opts ctl) = Some st"
    and "manage_catalog R (data_sources ctl) (R (run_dir (data_sources ctl)) @ ''/temp_data'')
           = (evs, cp)"
  shows "well_built cp (bind_global_params ctl) (serial opts) g \<and>
         (st = \<lparr>control_obj = ctl, fresh_dict = []\<rparr> \<or>
          st = gp_write (bind_global_params ctl) ''serial'' (PyBool (serial opts))
                 \<lparr>control_obj = ctl, fresh_dict = []\<rparr>)"
proof -
  let ?gp = "bind_global_params ctl"
  let ?st0 = "\<lparr>control_obj = ctl, fresh_dict = []\<rparr>"
  let ?nr = "R (nb_path_root (data_sources ctl))"
  let ?od = "R (run_dir (data_sources ctl)) @ ''/computed_notebooks/'' @ sname (data_sources ctl)"
  let ?N = "notebooks_section opts cp ?nr ?od ?gp (all opts, ?st0, new_dag)"
  have wb0: "well_built cp ?gp (serial opts) new_dag" by (rule well_built_new_dag)
  obtain ws1 r1 where N: "?N = (ws1, r1)" by (cases ?N)
  show ?thesis
  proof (cases r1)
    case (Inl e)
    then have "g = new_dag" "st = ?st0"
      using assms N by (simp_all add: run_control_def Let_def)
    then show ?thesis using wb0 by simp
  next
    case (Inr s1)
    obtain a1 st1 g1 where s1: "s1 = (a1, st1, g1)" by (cases s1)
    have N1: "?N = (ws1, Inr (a1, st1, g1))" using N Inr s1 by simp
    from notebooks_section_Inr[OF N1 wb0] have
      wb1: "well_built cp ?gp (serial opts) g1" and
      st1: "st1 = ?st0 \<or> st1 = gp_write ?gp ''serial'' (PyBool (serial opts)) ?st0"
      by simp_all
    let ?S = "scripts_section opts cp ?nr ?gp (a1, st1, g1)"
    obtain ws2 r2 where S: "?S = (ws2, r2)" by (cases ?S)
    show ?thesis
    proof (cases r2)
      case (Inl e)
      then have "g = g1" "st = st1"
        using assms N1 S by (simp_all add: run_control_def Let_def)
      then show ?thesis using wb1 st1 by simp
    next
      case (Inr s2)
      obtain a2 st2 g2 where s2: "s2 = (a2, st2, g2)" by (cases s2)
      have S2: "?S = (ws2, Inr (a2, st2, g2))" using S Inr s2 by simp
      from scripts_section_Inr[OF S2 wb1] have
        wb2: "well_built cp ?gp (serial opts) g2" and st2: "st2 = st1"
        by simp_all
      have "g = g2" "st = st2"
        using assms N1 S2 by (simp_all add: run_control_def Let_def split: sum.splits)
      then show ?thesis using wb2 st1 st2 by simp
    qed
  qed
qed

lemma run_control_has_both:
  "\<exists>g st. final_dag (run_control R c opts ctl) = Some g \<and>
          final_store (run_control R c opts ctl) = Some st"
  by (simp add: run_control_def Let_def split: prod.splits sum.splits)

lemma run_control_events:
  assumes "manage_catalog R (data_sources ctl) (R (run_dir (data_sources ctl)) @ ''/temp_data'')
           = (evs, cp)"
  shows "set evs \<subseteq> set (events (run_control R c opts ctl))"
  using assms by (auto simp: run_control_def Let_def split: prod.splits sum.splits)

lemma run_final_cases:
  assumes "final_dag (run G R c opts) = Some g \<or> final_store (run G R c opts) = Some st"
  shows "\<exists>ctl. \<not> time_series opts \<and> G c = Inr ctl \<and> run G R c opts = run_control R c opts ctl"
  using assms by (auto simp: run_def split: if_splits sum.splits)

text \<open>
  C6. Whatever \<open>--serial\<close> is, the graph of a run has the serial executor. A run that
  returns has started its tasks one at a time, in an order in which every task comes
  after the tasks it depends on. The value of the flag is only stored under the key
  \<open>serial\<close> of the global parameters, where every notebook task has it.
\<close>

theorem executor_always_serial:
  assumes "final_dag (run G R c opts) = Some g"
  shows "executor g = Serial \<and>
         (\<forall>(n, t) \<in> set (tasks g). task_kind t = Notebook \<longrightarrow>
            map_of (task_global_params t) ''serial'' = Some (PyBool (serial opts))) \<and>
         (raised (run G R c opts) = None \<longrightarrow>
            (\<exists>order. topological (tasks g) order \<and>
               started_tasks (events (run G R c opts)) = map (\<lambda>n. [n]) order))"
proof -
  from run_final_cases[of G R c opts g] assms obtain ctl where
    run: "run G R c opts = run_control R c opts ctl"
    by blast
  obtain st where st: "final_store (run_control R c opts ctl) = Some st"
    using run_control_has_both[of R c opts ctl] by blast
  obtain evs cp where mc:
    "manage_catalog R (data_sources ctl) (R (run_dir (data_sources ctl)) @ ''/temp_data'')
       = (evs, cp)"
    by (cases "manage_catalog R (data_sources ctl)
        (R (run_dir (data_sources ctl)) @ ''/temp_data'')")
  have wb: "well_built cp (bind_global_params ctl) (serial opts) g"
    using run_control_final[OF _ st mc] assms run by simp
  have ex: "executor g = Serial" and dist: "distinct (map fst (tasks g))"
    using wb by (simp_all add: well_built_def)
  have ser: "\<forall>(n, t) \<in> set (tasks g). task_kind t = Notebook \<longrightarrow>
            map_of (task_global_params t) ''serial'' = Some (PyBool (serial opts))"
    using wb by (auto simp: well_built_def)
  have ord: "\<exists>order. topological (tasks g) order \<and>
               started_tasks (events (run G R c opts)) = map (\<lambda>n. [n]) order"
    if ret: "raised (run G R c opts) = None"
  proof -
    from run_returned[OF ret assms] obtain started where
      b: "build g = Inr started" and s: "started_tasks (events (run G R c opts)) = started"
      by blast
    from b obtain order where o: "schedule (tasks g) [] = Some order"
      by (auto simp: build_def assemble_def split: sum.splits list.splits option.splits)
    then have "started = map (\<lambda>n. [n]) order"
      using b ex by (auto simp: build_def assemble_def execute_def
          split: sum.splits list.splits option.splits)
    moreover have "topological (tasks g) order"
      using o dist by (rule schedule_topological)
    ultimately show ?thesis using s by blast
  qed
  show ?thesis using ex ser ord by blast
qed

theorem executor_always_serial_witness:
  "final_dag (run (\<lambda>p. Inr (example_control_of (example_category [(''a'', []), (''b'', [])])))
      id ''config.yml'' no_flags)
     = Some \<lparr>executor = Serial, tasks = independent_tasks\<rparr> \<and>
   raised (run (\<lambda>p. Inr (example_control_of (example_category [(''a'', []), (''b'', [])])))
      id ''config.yml'' no_flags) = None \<and>
   executor \<lparr>executor = Serial, tasks = independent_tasks\<rparr> = Serial \<and>
   (\<exists>order. topological independent_tasks order \<and>
      started_tasks (events (run (\<lambda>p. Inr (example_control_of
          (example_category [(''a'', []), (''b'', [])]))) id ''config.yml'' no_flags))
        = map (\<lambda>n. [n]) order)"
proof -
  have h1: "final_dag (run (\<lambda>p. Inr (example_control_of
        (example_category [(''a'', []), (''b'', [])]))) id ''config.yml'' no_flags)
     = Some \<lparr>executor = Serial, tasks = independent_tasks\<rparr>"
    by code_simp
  have h2: "raised (run (\<lambda>p. Inr (example_control_of
        (example_category [(''a'', []), (''b'', [])]))) id ''config.yml'' no_flags) = None"
    by code_simp
  show ?thesis
    using h1 h2 executor_always_serial[OF h1] by simp
qed

text \<open>
  As stated, C6 fails: without \<open>--serial\<close> the executor is the serial one all the same,
  and two tasks that do not depend on each other are started one after the other,
  where the parallel executor would start them together.
\<close>

theorem executor_mode_counterexample:
  "serial no_flags = False \<and>
   final_dag (run (\<lambda>p. Inr (example_control_of (example_category [(''a'', []), (''b'', [])])))
      id ''config.yml'' no_flags)
     = Some \<lparr>executor = Serial, tasks = independent_tasks\<rparr> \<and>
   started_tasks (events (run (\<lambda>p. Inr (example_control_of
      (example_category [(''a'', []), (''b'', [])]))) id ''config.yml'' no_flags))
     = [[''a''], [''b'']] \<and>
   execute Parallel independent_tasks = [[''a'', ''b'']]"
proof (intro conjI)
  show "serial no_flags = False"
    by (simp add: no_flags_def)
  show "final_dag (run (\<lambda>p. Inr (example_control_of
        (example_category [(''a'', []), (''b'', [])]))) id ''config.yml'' no_flags)
     = Some \<lparr>executor = Serial, tasks = independent_tasks\<rparr>"
    by code_simp
  show "started_tasks (events (run (\<lambda>p. Inr (example_control_of
      (example_category [(''a'', []), (''b'', [])]))) id ''config.yml'' no_flags))
     = [[''a''], [''b'']]"
    by code_simp
  show "execute Parallel independent_tasks = [[''a'', ''b'']]"
    by code_simp
qed




section \<open>The name of the catalog subset\<close>

lemma split_on_nonempty: "split_on c xs \<noteq> []"
  by (induction xs) (auto split: list.splits)

lemma split_on_no_separator: "c \<notin> set xs \<Longrightarrow> split_on c xs = [xs]"
  by (induction xs) auto

lemma split_on_append: "split_on c (xs @ c # ys) = split_on c xs @ split_on c ys"
proof (induction xs)
  case Nil
  then show ?case by simp
next
  case (Cons x xs)
  obtain w ws where w: "split_on c xs = w # ws"
    using split_on_nonempty[of c xs] by (cases "split_on c xs") auto
  show ?case
    by (simp add: Cons.IH w)
qed

lemma cat_subset_name_eq:
  assumes "CHR ''/'' \<notin> set (base @ ext)" and "CHR ''.'' \<notin> set base"
    and "ext = [] \<or> (\<exists>e. ext = CHR ''.'' # e)"
  shows "cat_subset_name (dir @ ''/'' @ base @ ext) = base @ ''_subset''"
proof -
  have "split_on CHR ''/'' (dir @ ''/'' @ base @ ext)
      = split_on CHR ''/'' dir @ [base @ ext]"
    using split_on_append[of "CHR ''/''" dir "base @ ext"]
      split_on_no_separator[OF assms(1)] by simp
  then have l: "last (split_on CHR ''/'' (dir @ ''/'' @ base @ ext)) = base @ ext"
    by simp
  have "hd (split_on CHR ''.'' (base @ ext)) = base"
    using assms(3)
  proof
    assume "ext = []"
    then show ?thesis using split_on_no_separator[OF assms(2)] by simp
  next
    assume "\<exists>e. ext = CHR ''.'' # e"
    then obtain e where "ext = CHR ''.'' # e" by blast
    then show ?thesis
      using split_on_append[of "CHR ''.''" base e] split_on_no_separator[OF assms(2)] by simp
  qed
  then show ?thesis
    unfolding cat_subset_name_def l by simp
qed

lemma manage_catalog_subset:
  assumes "path_to_cat_json ds = Some p" and "subset ds = Some kw"
  shows "manage_catalog R ds t =
           ([OpenEsmDatastore (R p), CatalogSearch kw,
             CatalogSerialize t (cat_subset_name (R p)) ''file''],
            Some (t @ ''/'' @ cat_subset_name (R p) @ ''.json''))"
  using assms by (simp add: manage_catalog_def Let_def)

text \<open>
  What lines 67--73 do with the name. Let the configuration have a catalog path and
  subset parameters, and let the resolved catalog path end in a file name that is
  \<open>base\<close>, without a dot, followed by nothing or by a rest that starts with a dot. Then
  the subset is serialized with the directory \<open>run_dir/temp_data\<close> and the name
  \<open>base_subset\<close>, and every task of the graph has the catalog path
  \<open>run_dir/temp_data/base_subset.json\<close>: the name is cut at the first dot.
\<close>

lemma subset_catalog_path:
  assumes "\<not> time_series opts" and "G c = Inr ctl"
    and "path_to_cat_json (data_sources ctl) = Some p"
    and "subset (data_sources ctl) = Some kw"
    and "R p = dir @ ''/'' @ base @ ext"
    and "CHR ''/'' \<notin> set (base @ ext)" and "CHR ''.'' \<notin> set base"
    and "ext = [] \<or> (\<exists>e. ext = CHR ''.'' # e)"
  shows "CatalogSerialize (R (run_dir (data_sources ctl)) @ ''/temp_data'')
             (base @ ''_subset'') ''file'' \<in> set (events (run G R c opts)) \<and>
         (\<forall>g. final_dag (run G R c opts) = Some g \<longrightarrow>
            (\<forall>(n, t) \<in> set (tasks g).
               task_cat_path t
                 = Some (R (run_dir (data_sources ctl)) @ ''/temp_data/'' @ base @ ''_subset.json'')))"
proof -
  let ?t = "R (run_dir (data_sources ctl)) @ ''/temp_data''"
  let ?cp = "Some (?t @ ''/'' @ (base @ ''_subset'') @ ''.json'')"
  have run: "run G R c opts = run_control R c opts ctl"
    using assms(1,2) by (simp add: run_def)
  have name: "cat_subset_name (R p) = base @ ''_subset''"
    unfolding assms(5) using assms(6-8) by (rule cat_subset_name_eq)
  have mc: "manage_catalog R (data_sources ctl) ?t =
      ([OpenEsmDatastore (R p), CatalogSearch kw,
        CatalogSerialize ?t (base @ ''_subset'') ''file''], ?cp)"
    using manage_catalog_subset[OF assms(3,4), of R ?t] name by simp
  have ev: "CatalogSerialize ?t (base @ ''_subset'') ''file'' \<in> set (events (run G R c opts))"
    using run_control_events[OF mc, of c opts] run by simp
  have paths: "\<forall>(n, t) \<in> set (tasks g). task_cat_path t = ?cp"
    if g: "final_dag (run G R c opts) = Some g" for g
  proof -
    obtain st where st: "final_store (run_control R c opts ctl) = Some st"
      using run_control_has_both[of R c opts ctl] by blast
    have "well_built ?cp (bind_global_params ctl) (serial opts) g"
      using run_control_final[OF _ st mc] g run by simp
    then show ?thesis by (auto simp: well_built_def)
  qed
  have "?cp = Some (R (run_dir (data_sources ctl)) @ ''/temp_data/'' @ base @ ''_subset.json'')"
    by simp
  then show ?thesis using ev paths by simp
qed

lemma subset_catalog_path_example:
  "\<not> time_series no_flags \<and>
   path_to_cat_json (data_sources example_control) = Some ''/data/cesm.json'' \<and>
   subset (data_sources example_control) = Some [(''case'', PyStr ''b1850'')] \<and>
   id ''/data/cesm.json'' = ''/data'' @ ''/'' @ ''cesm'' @ ''.json'' \<and>
   CHR ''/'' \<notin> set (''cesm'' @ ''.json'') \<and> CHR ''.'' \<notin> set ''cesm'' \<and>
   CatalogSerialize ''/work/run/temp_data'' ''cesm_subset'' ''file''
     \<in> set (events (run (\<lambda>p. Inr example_control) id ''config.yml'' no_flags)) \<and>
   map_option (map (\<lambda>(n, t). (n, task_cat_path t)) \<circ> tasks)
       (final_dag (run (\<lambda>p. Inr example_control) id ''config.yml'' no_flags))
     = Some [(''setup'', Some ''/work/run/temp_data/cesm_subset.json''),
             (''plot_atm'', Some ''/work/run/temp_data/cesm_subset.json'')]"
proof -
  have h1: "\<not> time_series no_flags" by (simp add: no_flags_def)
  have h2: "(\<lambda>p. Inr example_control) ''config.yml'' = (Inr example_control :: error + control)"
    by simp
  have h3: "path_to_cat_json (data_sources example_control) = Some ''/data/cesm.json''"
    by (simp add: example_control_def example_sources_def)
  have h4: "subset (data_sources example_control) = Some [(''case'', PyStr ''b1850'')]"
    by (simp add: example_control_def example_sources_def)
  have h5: "id ''/data/cesm.json'' = ''/data'' @ ''/'' @ ''cesm'' @ ''.json''" by simp
  have h6: "CHR ''/'' \<notin> set (''cesm'' @ ''.json'')" by simp
  have h7: "CHR ''.'' \<notin> set ''cesm''" by simp
  have h8: "''.json'' = [] \<or> (\<exists>e. ''.json'' = CHR ''.'' # e)" by simp
  have rd: "id (run_dir (data_sources example_control)) = ''/work/run''"
    by (simp add: example_control_def example_sources_def)
  have d: "map_option (map (\<lambda>(n, t). (n, task_cat_path t)) \<circ> tasks)
       (final_dag (run (\<lambda>p. Inr example_control) id ''config.yml'' no_flags))
     = Some [(''setup'', Some ''/work/run/temp_data/cesm_subset.json''),
             (''plot_atm'', Some ''/work/run/temp_data/cesm_subset.json'')]"
    by code_simp
  from subset_catalog_path[where G = "\<lambda>p. Inr example_control" and R = id
      and c = "''config.yml''" and ctl = example_control and p = "''/data/cesm.json''"
      and dir = "''/data''" and base = "''cesm''" and ext = "''.json''",
      OF h1 h2 h3 h4 h5 h6 h7 h8]
  have "CatalogSerialize ''/work/run/temp_data'' ''cesm_subset'' ''file''
     \<in> set (events (run (\<lambda>p. Inr example_control) id ''config.yml'' no_flags))"
    unfolding rd by simp
  then show ?thesis
    using h1 h3 h4 h5 h6 h7 d by blast
qed

text \<open>With at most one dot in the file name, line 71 gives the basename.\<close>

lemma dropWhile_to_separator:
  "c \<notin> set xs \<Longrightarrow> dropWhile (\<lambda>x. x \<noteq> c) (xs @ c # ys) = c # ys"
  by (induction xs) auto

lemma catalog_basename_eq:
  assumes "CHR ''/'' \<notin> set (base @ ext)" and "CHR ''.'' \<notin> set base"
    and "ext = [] \<or> (\<exists>e. ext = CHR ''.'' # e \<and> CHR ''.'' \<notin> set e)"
  shows "catalog_basename (dir @ ''/'' @ base @ ext) = base"
proof -
  have "split_on CHR ''/'' (dir @ ''/'' @ base @ ext)
      = split_on CHR ''/'' dir @ [base @ ext]"
    using split_on_append[of "CHR ''/''" dir "base @ ext"]
      split_on_no_separator[OF assms(1)] by simp
  then have l: "last (split_on CHR ''/'' (dir @ ''/'' @ base @ ext)) = base @ ext"
    by simp
  from assms(3) show ?thesis
  proof
    assume "ext = []"
    then show ?thesis
      unfolding catalog_basename_def l using assms(2) by simp
  next
    assume "\<exists>e. ext = CHR ''.'' # e \<and> CHR ''.'' \<notin> set e"
    then obtain e where e: "ext = CHR ''.'' # e" "CHR ''.'' \<notin> set e" by blast
    have "CHR ''.'' \<notin> set (rev e)" using e(2) by simp
    then have "dropWhile (\<lambda>x. x \<noteq> CHR ''.'') (rev e @ CHR ''.'' # rev base)
        = CHR ''.'' # rev base"
      by (rule dropWhile_to_separator)
    then show ?thesis
      unfolding catalog_basename_def l by (simp add: e(1))
  qed
qed

lemma single_dot_name_is_basename:
  assumes "CHR ''/'' \<notin> set (base @ ext)" and "CHR ''.'' \<notin> set base"
    and "ext = [] \<or> (\<exists>e. ext = CHR ''.'' # e \<and> CHR ''.'' \<notin> set e)"
  shows "cat_subset_name (dir @ ''/'' @ base @ ext)
           = catalog_basename (dir @ ''/'' @ base @ ext) @ ''_subset''"
proof -
  have "ext = [] \<or> (\<exists>e. ext = CHR ''.'' # e)" using assms(3) by blast
  from cat_subset_name_eq[OF assms(1,2) this] catalog_basename_eq[OF assms]
  show ?thesis by simp
qed

text \<open>
  C9. The serialized subset is to be named by the basename of the catalog, and that
  path is to be the catalog path of every task. For the catalog \<open>/data/cesm.v2.json\<close>
  the basename is \<open>cesm.v2\<close>, but line 71 cuts the file name at its first dot: the
  subset is serialized under the name \<open>cesm_subset\<close>, and every task has the catalog
  path \<open>/work/run/temp_data/cesm_subset.json\<close>.
\<close>

theorem subset_name_cut_at_first_dot:
  "path_to_cat_json (data_sources two_dot_control) = Some ''/data/cesm.v2.json'' \<and>
   catalog_basename ''/data/cesm.v2.json'' = ''cesm.v2'' \<and>
   cat_subset_name ''/data/cesm.v2.json'' = ''cesm_subset'' \<and>
   filter (\<lambda>e. case e of CatalogSerialize d n k \<Rightarrow> True | _ \<Rightarrow> False)
       (events (run (\<lambda>p. Inr two_dot_control) id ''config.yml'' no_flags))
     = [CatalogSerialize ''/work/run/temp_data'' ''cesm_subset'' ''file''] \<and>
   map_option (map (\<lambda>(n, t). (n, task_cat_path t)) \<circ> tasks)
       (final_dag (run (\<lambda>p. Inr two_dot_control) id ''config.yml'' no_flags))
     = Some [(''setup'', Some ''/work/run/temp_data/cesm_subset.json''),
             (''plot_atm'', Some ''/work/run/temp_data/cesm_subset.json'')]"
proof (intro conjI)
  show "path_to_cat_json (data_sources two_dot_control) = Some ''/data/cesm.v2.json''"
    by (simp add: two_dot_control_def)
  show "catalog_basename ''/data/cesm.v2.json'' = ''cesm.v2''"
    by code_simp
  show "cat_subset_name ''/data/cesm.v2.json'' = ''cesm_subset''"
    by code_simp
  show "filter (\<lambda>e. case e of CatalogSerialize d n k \<Rightarrow> True | _ \<Rightarrow> False)
       (events (run (\<lambda>p. Inr two_dot_control) id ''config.yml'' no_flags))
     = [CatalogSerialize ''/work/run/temp_data'' ''cesm_subset'' ''file'']"
    by code_simp
  show "map_option (map (\<lambda>(n, t). (n, task_cat_path t)) \<circ> tasks)
       (final_dag (run (\<lambda>p. Inr two_dot_control) id ''config.yml'' no_flags))
     = Some [(''setup'', Some ''/work/run/temp_data/cesm_subset.json''),
             (''plot_atm'', Some ''/work/run/temp_data/cesm_subset.json'')]"
    by code_simp
qed

end
